theory Spec2Isabelle
  imports Complex_Main "HOL-Library.AList" "HOL-Library.Log_Nat"
begin

section \<open>Python strings\<close>

text \<open>
  A Python \<^verbatim>\<open>str\<close> is a sequence of Unicode code points.  The document read from
  \<^verbatim>\<open>index.html\<close>, the JSON text and the decoded strings are lists of code points;
  \<open>u\<close> turns an ASCII literal into such a list.
\<close>

type_synonym ustr = "nat list"

definition u :: "string \<Rightarrow> ustr" where
  "u = map of_char"

definition DQUOTE :: nat where "DQUOTE = 34"
definition SQUOTE :: nat where "SQUOTE = 39"
definition BACKTICK :: nat where "BACKTICK = 96"
definition BACKSLASH :: nat where "BACKSLASH = 92"
definition COMMA :: nat where "COMMA = 44"
definition RBRACE :: nat where "RBRACE = 125"
definition LBRACE :: nat where "LBRACE = 123"
definition RBRACKET :: nat where "RBRACKET = 93"
definition LBRACKET :: nat where "LBRACKET = 91"
definition SEMICOLON :: nat where "SEMICOLON = 59"
definition COLON :: nat where "COLON = 58"

text \<open>A double-quoted literal, for writing documents down.\<close>

definition dq :: "string \<Rightarrow> ustr" where
  "dq s = DQUOTE # u s @ [DQUOTE]"

section \<open>The regular expressions of \<^verbatim>\<open>extract_urls_from_js\<close>\<close>

text \<open>
  \<^verbatim>\<open>\s\<close> in a \<^verbatim>\<open>str\<close> pattern is Unicode white space: the characters for which
  \<^verbatim>\<open>str.isspace\<close> holds.
\<close>

definition is_space :: "nat \<Rightarrow> bool" where
  "is_space c \<longleftrightarrow>
     (9 \<le> c \<and> c \<le> 13) \<or> (28 \<le> c \<and> c \<le> 32) \<or> c = 133 \<or> c = 160 \<or> c = 5760 \<or>
     (8192 \<le> c \<and> c \<le> 8202) \<or> c = 8232 \<or> c = 8233 \<or> c = 8239 \<or> c = 8287 \<or> c = 12288"

text \<open>A literal piece of a pattern: the rest of the subject after it, if it is there.\<close>

fun lit :: "ustr \<Rightarrow> ustr \<Rightarrow> ustr option" where
  "lit [] s = Some s"
| "lit (p # ps) [] = None"
| "lit (p # ps) (c # cs) = (if p = c then lit ps cs else None)"

text \<open>
  \<^verbatim>\<open>(\[.*?\]);\<close> after the opening bracket, with \<^verbatim>\<open>re.DOTALL\<close>: the lazy \<^verbatim>\<open>.*?\<close> stops
  at the first \<^verbatim>\<open>];\<close>.  The result is the text before that \<^verbatim>\<open>]\<close> and the text after the
  \<^verbatim>\<open>;\<close>.
\<close>

fun until_close :: "ustr \<Rightarrow> (ustr \<times> ustr) option" where
  "until_close [] = None"
| "until_close [c] = None"
| "until_close (c # d # cs) =
     (if c = RBRACKET \<and> d = SEMICOLON then Some ([], cs)
      else map_option (\<lambda>(body, rest). (c # body, rest)) (until_close (d # cs)))"

text \<open>
  \<^verbatim>\<open>\s*=\s*(\[.*?\]);\<close> after the identifier \<open>name\<close>.  Group 2 is the array text with
  both brackets.
\<close>

definition match_assignment :: "ustr \<Rightarrow> ustr \<Rightarrow> (ustr \<times> ustr \<times> ustr) option" where
  "match_assignment name s =
     (case lit (u ''='') (dropWhile is_space s) of
        None \<Rightarrow> None
      | Some s1 \<Rightarrow>
         (case lit [LBRACKET] (dropWhile is_space s1) of
            None \<Rightarrow> None
          | Some s2 \<Rightarrow>
             (case until_close s2 of
                None \<Rightarrow> None
              | Some (body, rest) \<Rightarrow> Some (name, LBRACKET # body @ [RBRACKET], rest))))"

text \<open>
  The pattern \<^verbatim>\<open>const\s+(institutes|jobBoards)\s*=\s*(\[.*?\]);\<close> anchored at the start
  of \<open>s\<close>: groups 1 and 2 and the text after the match.  Every greedy white-space run is
  followed by a character that is not white space and the two identifiers start with
  different letters, so backtracking never finds a second way to match.
\<close>

definition match_here :: "ustr \<Rightarrow> (ustr \<times> ustr \<times> ustr) option" where
  "match_here s =
     (case lit (u ''const'') s of
        None \<Rightarrow> None
      | Some s1 \<Rightarrow>
         (case s1 of
            [] \<Rightarrow> None
          | c # cs \<Rightarrow>
             if \<not> is_space c then None
             else let s2 = dropWhile is_space cs in
               (case lit (u ''institutes'') s2 of
                  Some s3 \<Rightarrow> match_assignment (u ''institutes'') s3
                | None \<Rightarrow>
                   (case lit (u ''jobBoards'') s2 of
                      Some s3 \<Rightarrow> match_assignment (u ''jobBoards'') s3
                    | None \<Rightarrow> None))))"

lemma lit_length: "lit p s = Some r \<Longrightarrow> length r \<le> length s"
  by (induction p s rule: lit.induct) (auto split: if_splits)

lemma until_close_length: "until_close s = Some (b, r) \<Longrightarrow> length r < length s"
  by (induction s arbitrary: b r rule: until_close.induct) (auto split: if_splits)

lemma match_assignment_length:
  assumes "match_assignment n s = Some (g1, g2, r)"
  shows "length r < length s"
proof -
  from assms obtain s1 s2 b where
    1: "lit (u ''='') (dropWhile is_space s) = Some s1" and
    2: "lit [LBRACKET] (dropWhile is_space s1) = Some s2" and
    3: "until_close s2 = Some (b, r)"
    by (auto simp: match_assignment_def split: option.splits)
  have "length r < length s2" using 3 by (rule until_close_length)
  also have "\<dots> \<le> length (dropWhile is_space s1)" using 2 by (rule lit_length)
  also have "\<dots> \<le> length s1" by (rule length_dropWhile_le)
  also have "\<dots> \<le> length (dropWhile is_space s)" using 1 by (rule lit_length)
  also have "\<dots> \<le> length s" by (rule length_dropWhile_le)
  finally show ?thesis .
qed

lemma match_here_length:
  assumes "match_here s = Some (g1, g2, r)"
  shows "length r < length s"
proof -
  from assms obtain s1 c cs where
    1: "lit (u ''const'') s = Some s1" and s1: "s1 = c # cs" and
    2: "(\<exists>s3 n. length s3 \<le> length (dropWhile is_space cs) \<and>
           match_assignment n s3 = Some (g1, g2, r))"
    by (auto simp: match_here_def Let_def split: option.splits list.splits if_splits
             dest: lit_length)
  then obtain s3 n where 3: "length s3 \<le> length (dropWhile is_space cs)"
    and 4: "match_assignment n s3 = Some (g1, g2, r)" by blast
  have "length r < length s3" using 4 by (rule match_assignment_length)
  also note 3
  also have "length (dropWhile is_space cs) \<le> length cs" by (rule length_dropWhile_le)
  also have "length cs < length s1" by (simp add: s1)
  also have "\<dots> \<le> length s" using 1 by (rule lit_length)
  finally show ?thesis .
qed

text \<open>
  \<^verbatim>\<open>js_array_pattern.findall(html_content)\<close>: the matches from left to right, each search
  resuming where the last match ended; with two groups, each match is the pair of
  its groups.
\<close>

function findall :: "ustr \<Rightarrow> (ustr \<times> ustr) list" where
  "findall [] = []"
| "findall (c # cs) =
     (case match_here (c # cs) of
        Some (name, arr, rest) \<Rightarrow> (name, arr) # findall rest
      | None \<Rightarrow> findall cs)"
  by pat_completeness auto
termination
  by (relation "measure length") (auto dest: match_here_length)

text \<open>
  \<^verbatim>\<open>re.sub(r',\s*}', '}', s)\<close> and \<^verbatim>\<open>re.sub(r',\s*\]', ']', s)\<close>, with the closing
  character as a parameter: a comma, the white space after it and the closing
  character become the closing character alone.
\<close>

lemma dropWhile_Cons_length: "dropWhile P cs = d # ds \<Longrightarrow> length ds < length cs"
proof -
  assume "dropWhile P cs = d # ds"
  then have "Suc (length ds) = length (dropWhile P cs)" by simp
  also have "\<dots> \<le> length cs" by (rule length_dropWhile_le)
  finally show ?thesis by simp
qed

function strip_trailing :: "nat \<Rightarrow> ustr \<Rightarrow> ustr" where
  "strip_trailing cl [] = []"
| "strip_trailing cl (c # cs) =
     (if c = COMMA then
        (case dropWhile is_space cs of
           d # ds \<Rightarrow> if d = cl then cl # strip_trailing cl ds else c # strip_trailing cl cs
         | [] \<Rightarrow> c # strip_trailing cl cs)
      else c # strip_trailing cl cs)"
  by pat_completeness auto
termination
  by (relation "measure (\<lambda>(cl, s). length s)") (auto dest: dropWhile_Cons_length)

text \<open>\<^verbatim>\<open>array_content.replace("'", '"').replace('`', '"')\<close>\<close>

definition replace_quotes :: "ustr \<Rightarrow> ustr" where
  "replace_quotes s =
     map (\<lambda>c. if c = BACKTICK then DQUOTE else c) (map (\<lambda>c. if c = SQUOTE then DQUOTE else c) s)"

text \<open>Lines 43 to 47: the text handed to \<^verbatim>\<open>json.loads\<close>.\<close>

definition normalise :: "ustr \<Rightarrow> ustr" where
  "normalise array_content =
     strip_trailing RBRACKET (strip_trailing RBRACE (replace_quotes array_content))"

section \<open>Python values\<close>

text \<open>
  The objects \<^verbatim>\<open>json.loads\<close> builds.  A \<^verbatim>\<open>float\<close> is the rational it stands for, an
  infinity or the not-a-number object (\<^verbatim>\<open>-0.0\<close> and \<^verbatim>\<open>0.0\<close> are equal and both false,
  and are one value here).  A \<^verbatim>\<open>dict\<close> is the list of its items in insertion
  order, with distinct keys.
\<close>

datatype pyfloat = Fin rat | PInf | NInf | NaN

datatype pyval =
    PNone
  | PBool bool
  | PInt int
  | PFloat pyfloat
  | PStr ustr
  | PList "pyval list"
  | PDict "(ustr \<times> pyval) list"

text \<open>\<^verbatim>\<open>bool(v)\<close>\<close>

fun truthy :: "pyval \<Rightarrow> bool" where
  "truthy PNone = False"
| "truthy (PBool b) = b"
| "truthy (PInt n) = (n \<noteq> 0)"
| "truthy (PFloat f) = (f \<noteq> Fin 0)"
| "truthy (PStr s) = (s \<noteq> [])"
| "truthy (PList xs) = (xs \<noteq> [])"
| "truthy (PDict kvs) = (kvs \<noteq> [])"

text \<open>Lists and dicts have no hash: \<^verbatim>\<open>set.add\<close> raises \<^verbatim>\<open>TypeError\<close> on them.\<close>

fun hashable :: "pyval \<Rightarrow> bool" where
  "hashable (PList xs) = False"
| "hashable (PDict kvs) = False"
| "hashable v = True"

text \<open>
  The number a \<^verbatim>\<open>bool\<close>, \<^verbatim>\<open>int\<close> or \<^verbatim>\<open>float\<close> stands for: \<^verbatim>\<open>True == 1 == 1.0\<close>.
\<close>

fun num_of :: "pyval \<Rightarrow> pyfloat option" where
  "num_of (PBool b) = Some (Fin (if b then 1 else 0))"
| "num_of (PInt n) = Some (Fin (of_int n))"
| "num_of (PFloat f) = Some f"
| "num_of v = None"

text \<open>
  Equality as a \<^verbatim>\<open>set\<close> sees it (\<^verbatim>\<open>is\<close> or \<^verbatim>\<open>==\<close>): numbers by value, the one
  not-a-number object of the \<^verbatim>\<open>json\<close> module equal to itself, everything else by
  structure.
\<close>

definition py_eq :: "pyval \<Rightarrow> pyval \<Rightarrow> bool" where
  "py_eq a b =
     (case (num_of a, num_of b) of
        (Some x, Some y) \<Rightarrow> x = y
      | (None, None) \<Rightarrow> a = b
      | _ \<Rightarrow> False)"

section \<open>\<^verbatim>\<open>json.loads\<close>\<close>

subsection \<open>Numbers\<close>

definition is_digit :: "nat \<Rightarrow> bool" where
  "is_digit c \<longleftrightarrow> 48 \<le> c \<and> c \<le> 57"

definition digits_val :: "ustr \<Rightarrow> nat" where
  "digits_val ds = foldl (\<lambda>a c. 10 * a + (c - 48)) 0 ds"

definition pow2 :: "int \<Rightarrow> rat" where
  "pow2 e = (if 0 \<le> e then 2 ^ nat e else 1 / 2 ^ nat (- e))"

definition pow10 :: "int \<Rightarrow> rat" where
  "pow10 e = (if 0 \<le> e then 10 ^ nat e else 1 / 10 ^ nat (- e))"

text \<open>The integer \<open>e\<close> with \<open>2 ^ e \<le> a < 2 ^ (e + 1)\<close>, for a positive \<open>a\<close>.\<close>

definition ilog2 :: "rat \<Rightarrow> int" where
  "ilog2 a =
     (let (n, d) = quotient_of a;
          e = int (floorlog 2 (nat n)) - int (floorlog 2 (nat d))
      in if pow2 e \<le> a then e else e - 1)"

definition round_half_even :: "rat \<Rightarrow> int" where
  "round_half_even x =
     (let f = \<lfloor>x\<rfloor>; r = x - of_int f
      in if r < 1 / 2 then f else if 1 / 2 < r then f + 1 else if even f then f else f + 1)"

text \<open>
  \<^verbatim>\<open>float(text)\<close>: the decimal rounded to the nearest binary64 number, ties to even,
  with gradual underflow and overflow to an infinity.
\<close>

definition round_double :: "rat \<Rightarrow> pyfloat" where
  "round_double q =
     (if q = 0 then Fin 0
      else
        let a = \<bar>q\<bar>;
            e = max (ilog2 a) (- 1022);
            ulp = pow2 (e - 52);
            r = of_int (round_half_even (a / ulp)) * ulp
        in if pow2 1024 \<le> r then (if 0 < q then PInf else NInf)
           else Fin (if 0 < q then r else - r))"

text \<open>
  The number pattern of the scanner,
  \<^verbatim>\<open>(-?(?:0|[1-9][0-9]*))(\.[0-9]+)?([eE][-+]?[0-9]+)?\<close>.  The integer part of the
  match first: its digits and the text after them.
\<close>

definition scan_int_part :: "ustr \<Rightarrow> (ustr \<times> ustr) option" where
  "scan_int_part s =
     (case s of
        [] \<Rightarrow> None
      | c # cs \<Rightarrow>
          if c = 48 then Some ([c], cs)
          else if is_digit c then Some (c # takeWhile is_digit cs, dropWhile is_digit cs)
          else None)"

text \<open>\<^verbatim>\<open>(\.[0-9]+)?\<close>: the digits of the fraction, none when the group does not match.\<close>

definition scan_frac :: "ustr \<Rightarrow> ustr \<times> ustr" where
  "scan_frac s =
     (case s of
        c # d # ds \<Rightarrow>
          if c = 46 \<and> is_digit d then (takeWhile is_digit (d # ds), dropWhile is_digit (d # ds))
          else ([], s)
      | _ \<Rightarrow> ([], s))"

text \<open>\<^verbatim>\<open>([eE][-+]?[0-9]+)?\<close>: the exponent, when the group matches.\<close>

definition scan_exp :: "ustr \<Rightarrow> int option \<times> ustr" where
  "scan_exp s =
     (case s of
        c # cs \<Rightarrow>
          if c = 101 \<or> c = 69 then
            (case cs of
               d # ds \<Rightarrow>
                 if d = 45 \<or> d = 43 then
                   (case ds of
                      x # xs \<Rightarrow>
                        if is_digit x then
                          (Some ((if d = 45 then - 1 else 1) * int (digits_val (takeWhile is_digit ds))),
                           dropWhile is_digit ds)
                        else (None, s)
                    | [] \<Rightarrow> (None, s))
                 else if is_digit d then
                   (Some (int (digits_val (takeWhile is_digit cs))), dropWhile is_digit cs)
                 else (None, s)
             | [] \<Rightarrow> (None, s))
          else (None, s)
      | [] \<Rightarrow> (None, s))"

text \<open>
  A number at the start of \<open>s\<close>: an \<^verbatim>\<open>int\<close> when the match has neither fraction
  nor exponent, a \<^verbatim>\<open>float\<close> otherwise.
\<close>

definition scan_number :: "ustr \<Rightarrow> (pyval \<times> ustr) option" where
  "scan_number s =
     (let neg = (s \<noteq> [] \<and> hd s = 45);
          s0 = (if neg then tl s else s)
      in case scan_int_part s0 of
           None \<Rightarrow> None
         | Some (ip, s1) \<Rightarrow>
            (let (fr, s2) = scan_frac s1;
                 (ex, s3) = scan_exp s2;
                 sg = (if neg then - 1 else 1)
             in if fr = [] \<and> ex = None then Some (PInt (sg * int (digits_val ip)), s3)
                else Some (PFloat (round_double
                       (of_int sg * (of_nat (digits_val ip) + of_nat (digits_val fr) / 10 ^ length fr)
                          * pow10 (case ex of None \<Rightarrow> 0 | Some e \<Rightarrow> e))), s3)))"

subsection \<open>Strings\<close>

definition hex_val :: "nat \<Rightarrow> nat option" where
  "hex_val c =
     (if 48 \<le> c \<and> c \<le> 57 then Some (c - 48)
      else if 97 \<le> c \<and> c \<le> 102 then Some (c - 87)
      else if 65 \<le> c \<and> c \<le> 70 then Some (c - 55)
      else None)"

text \<open>The four hexadecimal digits of a \<^verbatim>\<open>\uXXXX\<close> escape and the text after them.\<close>

definition hex4 :: "ustr \<Rightarrow> (nat \<times> ustr) option" where
  "hex4 s =
     (case s of
        a # b # c # d # rest \<Rightarrow>
          (case (hex_val a, hex_val b, hex_val c, hex_val d) of
             (Some w, Some x, Some y, Some z) \<Rightarrow> Some (((w * 16 + x) * 16 + y) * 16 + z, rest)
           | _ \<Rightarrow> None)
      | _ \<Rightarrow> None)"

text \<open>The one-character escapes \<^verbatim>\<open>\" \\ \/ \b \f \n \r \t\<close>.\<close>

definition simple_escape :: "nat \<Rightarrow> nat option" where
  "simple_escape c =
     (if c = 34 \<or> c = 92 \<or> c = 47 then Some c
      else if c = 98 then Some 8
      else if c = 102 then Some 12
      else if c = 110 then Some 10
      else if c = 114 then Some 13
      else if c = 116 then Some 9
      else None)"

text \<open>
  After \<^verbatim>\<open>\uXXXX\<close> gave the code point \<open>hi\<close>: a high surrogate directly followed by
  the escape of a low surrogate is joined with it into one code point.
\<close>

definition join_surrogate :: "nat \<Rightarrow> ustr \<Rightarrow> nat \<times> ustr" where
  "join_surrogate hi s =
     (if 55296 \<le> hi \<and> hi \<le> 56319 then
        (case s of
           b # c # rest \<Rightarrow>
             if b = 92 \<and> c = 117 then
               (case hex4 rest of
                  Some (lo, rest') \<Rightarrow>
                    if 56320 \<le> lo \<and> lo \<le> 57343
                    then (65536 + ((hi - 55296) * 1024 + (lo - 56320)), rest')
                    else (hi, s)
                | None \<Rightarrow> (hi, s))
             else (hi, s)
         | _ \<Rightarrow> (hi, s))
      else (hi, s))"

lemma hex4_length: "hex4 s = Some (n, r) \<Longrightarrow> length r < length s"
  by (auto simp: hex4_def split: list.splits option.splits)

lemma join_surrogate_length:
  assumes "join_surrogate hi s = (n, r)"
  shows "length r \<le> length s"
proof (cases "r = s")
  case True
  then show ?thesis by simp
next
  case False
  with assms obtain t lo where "s = 92 # 117 # t" and "hex4 t = Some (lo, r)"
    by (auto simp: join_surrogate_def split: list.splits option.splits if_splits)
  then show ?thesis using hex4_length [of t lo r] by simp
qed

lemma escape_length:
  assumes "hex4 es = Some (hi, rest)" and "join_surrogate hi rest = (cp, rest')"
  shows "length rest' < length es"
  using hex4_length [OF assms(1)] join_surrogate_length [OF assms(2)] by simp

text \<open>
  \<^verbatim>\<open>scanstring\<close> with \<^verbatim>\<open>strict=True\<close>, after the opening quote: the decoded string and
  the text after the closing quote.  A control character, an unknown escape and the
  end of the text are \<^verbatim>\<open>JSONDecodeError\<close>.
\<close>

function scanstring :: "ustr \<Rightarrow> (ustr \<times> ustr) option" where
  "scanstring [] = None"
| "scanstring (c # cs) =
     (if c = 34 then Some ([], cs)
      else if c = 92 then
        (case cs of
           [] \<Rightarrow> None
         | e # es \<Rightarrow>
             if e = 117 then
               (case hex4 es of
                  None \<Rightarrow> None
                | Some (hi, rest) \<Rightarrow>
                    (case join_surrogate hi rest of
                       (cp, rest') \<Rightarrow>
                         map_option (\<lambda>(str, r). (cp # str, r)) (scanstring rest')))
             else
               (case simple_escape e of
                  None \<Rightarrow> None
                | Some x \<Rightarrow> map_option (\<lambda>(str, r). (x # str, r)) (scanstring es)))
      else if c < 32 then None
      else map_option (\<lambda>(str, r). (c # str, r)) (scanstring cs))"
  by pat_completeness auto
termination
  by (relation "measure length") (auto dest: escape_length [OF _ sym])

subsection \<open>Tokens\<close>

text \<open>
  The decoder reads a value by recursive descent over the text, skipping white space
  between any two tokens.  What a token is does not depend on where it stands, so the
  same values come out of cutting the text into tokens first and reading the value
  off the tokens: a text is decoded exactly when both steps succeed.
\<close>

datatype token =
    TLBrace | TRBrace | TLBracket | TRBracket | TColon | TComma
  | TScalar pyval

text \<open>The white space of the decoder, \<^verbatim>\<open>[ \t\n\r]\<close>.\<close>

definition is_json_ws :: "nat \<Rightarrow> bool" where
  "is_json_ws c \<longleftrightarrow> c = 32 \<or> c = 9 \<or> c = 10 \<or> c = 13"

text \<open>
  A value that is neither a string nor a container: \<^verbatim>\<open>null\<close>, \<^verbatim>\<open>true\<close>, \<^verbatim>\<open>false\<close>,
  the constants \<^verbatim>\<open>NaN\<close>, \<^verbatim>\<open>Infinity\<close>, \<^verbatim>\<open>-Infinity\<close> (accepted by default) or a
  number.
\<close>

definition scan_scalar :: "ustr \<Rightarrow> (pyval \<times> ustr) option" where
  "scan_scalar s =
     (case lit (u ''null'') s of Some r \<Rightarrow> Some (PNone, r) | None \<Rightarrow>
      case lit (u ''true'') s of Some r \<Rightarrow> Some (PBool True, r) | None \<Rightarrow>
      case lit (u ''false'') s of Some r \<Rightarrow> Some (PBool False, r) | None \<Rightarrow>
      case lit (u ''NaN'') s of Some r \<Rightarrow> Some (PFloat NaN, r) | None \<Rightarrow>
      case lit (u ''Infinity'') s of Some r \<Rightarrow> Some (PFloat PInf, r) | None \<Rightarrow>
      case lit (u ''-Infinity'') s of Some r \<Rightarrow> Some (PFloat NInf, r) | None \<Rightarrow>
      scan_number s)"

definition punct :: "nat \<Rightarrow> token option" where
  "punct c =
     (if c = LBRACE then Some TLBrace
      else if c = RBRACE then Some TRBrace
      else if c = LBRACKET then Some TLBracket
      else if c = RBRACKET then Some TRBracket
      else if c = COLON then Some TColon
      else if c = COMMA then Some TComma
      else None)"

lemma scanstring_length: "scanstring s = Some (str, r) \<Longrightarrow> length r < length s"
proof (induction s arbitrary: str r rule: scanstring.induct)
  case 1
  then show ?case by simp
next
  case (2 c cs)
  show ?case
  proof (cases "c = 34")
    case True
    with "2.prems" show ?thesis by simp
  next
    case not_quote: False
    show ?thesis
    proof (cases "c = 92")
      case False
      with not_quote "2.prems" obtain str' where "scanstring cs = Some (str', r)"
        by (auto split: if_splits)
      with "2.IH"(3) [OF not_quote False] "2.prems" not_quote False show ?thesis
        by (fastforce split: if_splits)
    next
      case True
      with "2.prems" obtain e es where cs: "cs = e # es"
        by (cases cs) auto
      show ?thesis
      proof (cases "e = 117")
        case True
        with "2.prems" \<open>c = 92\<close> cs obtain hi rest cp rest' str' where
          h: "hex4 es = Some (hi, rest)" and j: "join_surrogate hi rest = (cp, rest')"
          and s: "scanstring rest' = Some (str', r)"
          by (auto split: option.splits prod.splits)
        have "length r < length rest'"
          using "2.IH"(1) [OF not_quote \<open>c = 92\<close> cs True h _ j [symmetric] s] by simp
        also have "\<dots> < length es" using escape_length [OF h j] .
        finally show ?thesis using cs by simp
      next
        case False
        with "2.prems" \<open>c = 92\<close> cs obtain x str' where
          x: "simple_escape e = Some x" and s: "scanstring es = Some (str', r)"
          by (auto split: option.splits)
        have "length r < length es"
          using "2.IH"(2) [OF not_quote \<open>c = 92\<close> cs False x s] .
        then show ?thesis using cs by simp
      qed
    qed
  qed
qed

lemma lit_Cons_length: "lit (p # ps) s = Some r \<Longrightarrow> length r < length s"
  by (cases s) (auto split: if_splits dest: lit_length)

lemma scan_number_length:
  assumes "scan_number s = Some (v, r)"
  shows "length r < length s"
proof -
  define s0 where "s0 = (if s \<noteq> [] \<and> hd s = 45 then tl s else s)"
  have s0: "length s0 \<le> length s" by (simp add: s0_def)
  from assms obtain ip s1 where ip: "scan_int_part s0 = Some (ip, s1)"
    by (auto simp: scan_number_def Let_def s0_def split: option.splits prod.splits if_splits)
  have 1: "length s1 < length s0"
    using ip length_dropWhile_le [of is_digit "tl s0"]
    by (cases s0) (auto simp: scan_int_part_def split: if_splits)
  have 2: "length (snd (scan_frac t)) \<le> length t" for t
    using length_dropWhile_le [of is_digit "tl t"]
    by (auto simp: scan_frac_def split: list.splits)
  have 3: "length (snd (scan_exp t)) \<le> length t" for t
    using length_dropWhile_le [of is_digit "tl t"] length_dropWhile_le [of is_digit "tl (tl t)"]
    by (auto simp: scan_exp_def split: list.splits)
  from assms ip have "r = snd (scan_exp (snd (scan_frac s1)))"
    by (auto simp: scan_number_def Let_def s0_def split: option.splits prod.splits if_splits)
  then have "length r \<le> length s1" using 2 [of s1] 3 [of "snd (scan_frac s1)"] by simp
  with 1 s0 show ?thesis by simp
qed

lemma scan_scalar_length: "scan_scalar s = Some (v, r) \<Longrightarrow> length r < length s"
  by (auto simp: scan_scalar_def u_def split: option.splits
           dest: lit_Cons_length scan_number_length)

text \<open>The tokens of a text; \<open>None\<close> when some part of it is no token.\<close>

function lex :: "ustr \<Rightarrow> token list option" where
  "lex [] = Some []"
| "lex (c # cs) =
     (if is_json_ws c then lex cs
      else if c = DQUOTE then
        (case scanstring cs of
           None \<Rightarrow> None
         | Some (str, rest) \<Rightarrow> map_option ((#) (TScalar (PStr str))) (lex rest))
      else
        (case punct c of
           Some t \<Rightarrow> map_option ((#) t) (lex cs)
         | None \<Rightarrow>
            (case scan_scalar (c # cs) of
               None \<Rightarrow> None
             | Some (v, rest) \<Rightarrow> map_option ((#) (TScalar v)) (lex rest))))"
  by pat_completeness auto
termination
  by (relation "measure length")
     (auto dest: scanstring_length scan_scalar_length intro: less_SucI)

subsection \<open>Values\<close>

text \<open>
  The containers that are open while the tokens are read, innermost first: an array
  with its elements so far (last one first), an object with its items so far, and an
  object whose next value belongs to a key already read.
\<close>

datatype frame =
    FArr "pyval list"
  | FObj "(ustr \<times> pyval) list"
  | FKey "(ustr \<times> pyval) list" ustr

text \<open>What the grammar allows next.\<close>

datatype expect =
    Value | ValueOrEnd | KeyOrEnd | Key | Colon | CommaOrEnd
  | Finished pyval

text \<open>
  A value is complete: it is the whole text's value, the next element of the array,
  or the value of the pending key.  A repeated key keeps its place and takes the
  later value, as assigning to a \<^verbatim>\<open>dict\<close> does.
\<close>

fun push_value :: "pyval \<Rightarrow> frame list \<Rightarrow> (expect \<times> frame list) option" where
  "push_value v [] = Some (Finished v, [])"
| "push_value v (FArr vs # st) = Some (CommaOrEnd, FArr (v # vs) # st)"
| "push_value v (FKey kvs k # st) = Some (CommaOrEnd, FObj (AList.update k v kvs) # st)"
| "push_value v (FObj kvs # st) = None"

fun value_start :: "frame list \<Rightarrow> token \<Rightarrow> (expect \<times> frame list) option" where
  "value_start st (TScalar v) = push_value v st"
| "value_start st TLBracket = Some (ValueOrEnd, FArr [] # st)"
| "value_start st TLBrace = Some (KeyOrEnd, FObj [] # st)"
| "value_start st t = None"

fun close_array :: "frame list \<Rightarrow> (expect \<times> frame list) option" where
  "close_array (FArr vs # st) = push_value (PList (rev vs)) st"
| "close_array st = None"

fun close_object :: "frame list \<Rightarrow> (expect \<times> frame list) option" where
  "close_object (FObj kvs # st) = push_value (PDict kvs) st"
| "close_object st = None"

fun read_key :: "frame list \<Rightarrow> token \<Rightarrow> (expect \<times> frame list) option" where
  "read_key (FObj kvs # st) (TScalar (PStr k)) = Some (Colon, FKey kvs k # st)"
| "read_key st t = None"

fun after_value :: "frame list \<Rightarrow> token \<Rightarrow> (expect \<times> frame list) option" where
  "after_value (FArr vs # st) TComma = Some (Value, FArr vs # st)"
| "after_value (FObj kvs # st) TComma = Some (Key, FObj kvs # st)"
| "after_value st TRBracket = close_array st"
| "after_value st TRBrace = close_object st"
| "after_value st t = None"

fun step :: "expect \<times> frame list \<Rightarrow> token \<Rightarrow> (expect \<times> frame list) option" where
  "step (Value, st) t = value_start st t"
| "step (ValueOrEnd, st) t = (if t = TRBracket then close_array st else value_start st t)"
| "step (KeyOrEnd, st) t = (if t = TRBrace then close_object st else read_key st t)"
| "step (Key, st) t = read_key st t"
| "step (Colon, st) t = (if t = TColon then Some (Value, st) else None)"
| "step (CommaOrEnd, st) t = after_value st t"
| "step (Finished v, st) t = None"

fun run :: "expect \<times> frame list \<Rightarrow> token list \<Rightarrow> (expect \<times> frame list) option" where
  "run s [] = Some s"
| "run s (t # ts) = (case step s t of None \<Rightarrow> None | Some s' \<Rightarrow> run s' ts)"

definition parse_tokens :: "token list \<Rightarrow> pyval option" where
  "parse_tokens ts =
     (case run (Value, []) ts of
        Some (Finished v, st) \<Rightarrow> Some v
      | _ \<Rightarrow> None)"

text \<open>
  \<^verbatim>\<open>json.loads(s)\<close> for a \<^verbatim>\<open>str\<close>: \<open>None\<close> stands for \<^verbatim>\<open>json.JSONDecodeError\<close>.  A
  text that starts with a byte order mark is refused before decoding.
\<close>

definition json_loads :: "ustr \<Rightarrow> pyval option" where
  "json_loads s =
     (if s \<noteq> [] \<and> hd s = 65279 then None
      else case lex s of None \<Rightarrow> None | Some ts \<Rightarrow> parse_tokens ts)"

section \<open>\<^verbatim>\<open>extract_urls_from_js\<close>\<close>

text \<open>
  The exceptions of the program that no handler takes: \<^verbatim>\<open>TypeError\<close> and \<^verbatim>\<open>KeyError\<close>
  from the use of a decoded value; whatever reading the file raises other than
  \<^verbatim>\<open>FileNotFoundError\<close>; \<^verbatim>\<open>UnicodeEncodeError\<close> from a \<^verbatim>\<open>print\<close> of a text that
  standard output cannot encode; \<^verbatim>\<open>KeyboardInterrupt\<close> during a probe; and any other
  exception, by the name of its class, that the formatting of a caught exception
  raises.
\<close>

datatype exn = TypeError | KeyError | ReadError | UnicodeEncodeError | KeyboardInterrupt | OtherError string

text \<open>How a call ends: it returns, it leaves through \<^verbatim>\<open>sys.exit\<close>, or it raises.\<close>

datatype 'a outcome = Returns 'a | SysExit nat | Uncaught exn

text \<open>What \<^verbatim>\<open>open\<close> and \<^verbatim>\<open>read\<close> find at \<^verbatim>\<open>HTML_FILE_PATH\<close>.\<close>

datatype file_read = FileNotFound | ReadFails | FileText ustr

text \<open>The lines the program prints, by the statement that prints them.\<close>

datatype line =
    ParsingFile
  | ErrorNotFound
  | ErrorNoArrays
  | FoundArrays nat
  | WarningNotParsed ustr
  | ErrorDetails
  | FoundUrls nat
  | NoUrlsFound
  | Checking nat nat pyval
  | Arrow ustr
  | CheckComplete
  | AllWorking
  | FoundBroken nat
  | BrokenLink pyval ustr

text \<open>\<^verbatim>\<open>k in s\<close> for two strings: \<open>k\<close> occurs in \<open>s\<close>.\<close>

fun substring :: "ustr \<Rightarrow> ustr \<Rightarrow> bool" where
  "substring k [] = (k = [])"
| "substring k (c # cs) = (lit k (c # cs) \<noteq> None \<or> substring k cs)"

text \<open>
  \<^verbatim>\<open>key in item\<close>: a key of a dict, an element of a list, a substring of a string;
  \<^verbatim>\<open>TypeError\<close> for a value that is no container.
\<close>

fun py_contains :: "ustr \<Rightarrow> pyval \<Rightarrow> exn + bool" where
  "py_contains k (PDict kvs) = Inr (k \<in> set (map fst kvs))"
| "py_contains k (PList xs) = Inr (PStr k \<in> set xs)"
| "py_contains k (PStr s) = Inr (substring k s)"
| "py_contains k v = Inl TypeError"

text \<open>\<^verbatim>\<open>item[key]\<close> with a string key: only a dict can be indexed by a string.\<close>

fun py_getitem :: "pyval \<Rightarrow> ustr \<Rightarrow> exn + pyval" where
  "py_getitem (PDict kvs) k = (case map_of kvs k of Some v \<Rightarrow> Inr v | None \<Rightarrow> Inl KeyError)"
| "py_getitem v k = Inl TypeError"

text \<open>
  \<^verbatim>\<open>urls.add(v)\<close>.  The set is the list of its elements in the order they came in;
  a value equal to an element changes nothing.
\<close>

definition set_add :: "pyval \<Rightarrow> pyval list \<Rightarrow> exn + pyval list" where
  "set_add v urls =
     (if \<not> hashable v then Inl TypeError
      else if list_ex (\<lambda>x. py_eq x v) urls then Inr urls
      else Inr (urls @ [v]))"

text \<open>Lines 52 and 53, and 54 and 55 with the other key.\<close>

definition check_field :: "ustr \<Rightarrow> pyval \<Rightarrow> pyval list \<Rightarrow> exn + pyval list" where
  "check_field key item urls =
     (case py_contains key item of
        Inl e \<Rightarrow> Inl e
      | Inr False \<Rightarrow> Inr urls
      | Inr True \<Rightarrow>
         (case py_getitem item key of
            Inl e \<Rightarrow> Inl e
          | Inr v \<Rightarrow> if truthy v then set_add v urls else Inr urls))"

definition add_item :: "pyval \<Rightarrow> pyval list \<Rightarrow> exn + pyval list" where
  "add_item item urls =
     (case check_field (u ''url'') item urls of
        Inl e \<Rightarrow> Inl e
      | Inr urls' \<Rightarrow> check_field (u ''homepageUrl'') item urls')"

text \<open>\<^verbatim>\<open>for item in data\<close>: what the loop iterates over.\<close>

fun py_iter :: "pyval \<Rightarrow> exn + pyval list" where
  "py_iter (PList xs) = Inr xs"
| "py_iter (PDict kvs) = Inr (map (\<lambda>kv. PStr (fst kv)) kvs)"
| "py_iter (PStr s) = Inr (map (\<lambda>c. PStr [c]) s)"
| "py_iter v = Inl TypeError"

fun add_items :: "pyval list \<Rightarrow> pyval list \<Rightarrow> exn + pyval list" where
  "add_items [] urls = Inr urls"
| "add_items (item # items) urls =
     (case add_item item urls of
        Inl e \<Rightarrow> Inl e
      | Inr urls' \<Rightarrow> add_items items urls')"

text \<open>
  The loop over \<^verbatim>\<open>found_arrays\<close>, lines 39 to 59: what it prints and the set at its
  end, or the exception that leaves it.  Only \<^verbatim>\<open>json.JSONDecodeError\<close> is handled.
\<close>

fun process_arrays :: "(ustr \<times> ustr) list \<Rightarrow> pyval list \<Rightarrow> line list \<times> (exn + pyval list)" where
  "process_arrays [] urls = ([], Inr urls)"
| "process_arrays ((array_name, array_content) # found) urls =
     (case json_loads (normalise array_content) of
        None \<Rightarrow>
          (case process_arrays found urls of
             (out, r) \<Rightarrow> (WarningNotParsed array_name # ErrorDetails # out, r))
      | Some data \<Rightarrow>
          (case py_iter data of
             Inl e \<Rightarrow> ([], Inl e)
           | Inr items \<Rightarrow>
              (case add_items items urls of
                 Inl e \<Rightarrow> ([], Inl e)
               | Inr urls' \<Rightarrow> process_arrays found urls')))"

text \<open>
  \<^verbatim>\<open>extract_urls_from_js(HTML_FILE_PATH)\<close>.  \<open>order\<close> is the order in which
  \<^verbatim>\<open>list(urls)\<close> enumerates the set; Python leaves it open.
\<close>

definition extract_urls_from_js ::
  "(pyval list \<Rightarrow> pyval list) \<Rightarrow> file_read \<Rightarrow> line list \<times> pyval list outcome" where
  "extract_urls_from_js order html_file =
     (case html_file of
        FileNotFound \<Rightarrow> ([ParsingFile, ErrorNotFound], SysExit 1)
      | ReadFails \<Rightarrow> ([ParsingFile], Uncaught ReadError)
      | FileText html_content \<Rightarrow>
         (let found_arrays = findall html_content in
          if found_arrays = [] then ([ParsingFile, ErrorNoArrays], SysExit 1)
          else
            (case process_arrays found_arrays [] of
               (out, Inl e) \<Rightarrow>
                 (ParsingFile # FoundArrays (length found_arrays) # out, Uncaught e)
             | (out, Inr urls) \<Rightarrow>
                 (ParsingFile # FoundArrays (length found_arrays) # out @ [FoundUrls (length urls)],
                  Returns (order urls)))))"

section \<open>\<^verbatim>\<open>check_link\<close>\<close>

text \<open>
  How \<^verbatim>\<open>session.head\<close> ends:
  \<^item> with a response and its status code;
  \<^item> with an exception of a class under \<^verbatim>\<open>requests.exceptions.RequestException\<close>
    (the name of the class);
  \<^item> with any other exception \<open>e\<close> of a class under \<^verbatim>\<open>Exception\<close>, given by what the
    formatting of \<open>e\<close> in the last handler does: \<^verbatim>\<open>str(e)\<close> returns the message, or
    it raises or exits itself;
  \<^item> with \<^verbatim>\<open>KeyboardInterrupt\<close>;
  \<^item> with \<^verbatim>\<open>SystemExit\<close> and its status.

  The last two are not under \<^verbatim>\<open>Exception\<close>, so neither handler of \<^verbatim>\<open>check_link\<close>
  takes them.
\<close>

datatype head_result =
    Response int
  | RequestException string
  | OtherException "ustr outcome"
  | RaisesKeyboardInterrupt
  | RaisesSystemExit nat

function str_nat :: "nat \<Rightarrow> string" where
  "str_nat n = (if n < 10 then [''0123456789'' ! n] else str_nat (n div 10) @ [''0123456789'' ! (n mod 10)])"
  by pat_completeness auto
termination
  by (relation "measure id") auto

text \<open>\<^verbatim>\<open>str(i)\<close> for an \<^verbatim>\<open>int\<close>\<close>

definition str_int :: "int \<Rightarrow> string" where
  "str_int i = (if i < 0 then CHR ''-'' # str_nat (nat (- i)) else str_nat (nat i))"

text \<open>
  \<^verbatim>\<open>check_link\<close> returns a status string, or it ends with what passed its handlers
  or was raised inside the last one.
\<close>

definition check_link :: "pyval \<Rightarrow> (pyval \<Rightarrow> head_result) \<Rightarrow> ustr outcome" where
  "check_link url session =
     (case session url of
        Response status_code \<Rightarrow>
          if status_code \<ge> 400 then Returns (u ''FAILED: Status '' @ u (str_int status_code))
          else Returns (u ''OK'')
      | RequestException class_name \<Rightarrow>
          Returns (u ''FAILED: Request Error ('' @ u class_name @ u '')'')
      | OtherException str_e \<Rightarrow>
          (case str_e of
             Returns e \<Rightarrow> Returns (u ''FAILED: An unexpected error occurred ('' @ e @ u '')'')
           | SysExit n \<Rightarrow> SysExit n
           | Uncaught x \<Rightarrow> Uncaught x)
      | RaisesKeyboardInterrupt \<Rightarrow> Uncaught KeyboardInterrupt
      | RaisesSystemExit n \<Rightarrow> SysExit n)"

section \<open>\<^verbatim>\<open>main\<close>\<close>

text \<open>
  Standard output encodes what is printed as UTF-8 and refuses the code points
  U+D800 to U+DFFF, which have no encoding: \<^verbatim>\<open>print\<close> raises \<^verbatim>\<open>UnicodeEncodeError\<close>
  for a text that holds one and prints every other text.  The lines that
  \<^verbatim>\<open>extract_urls_from_js\<close> prints hold none (they are made of literals, of counts, of
  the identifier the pattern matched and of the message of \<^verbatim>\<open>JSONDecodeError\<close>); a
  URL that is a string can hold one, and so can the message of an exception.
\<close>

definition is_surrogate :: "nat \<Rightarrow> bool" where
  "is_surrogate c \<longleftrightarrow> 55296 \<le> c \<and> c \<le> 57343"

definition printable :: "ustr \<Rightarrow> bool" where
  "printable s \<longleftrightarrow> list_all (\<lambda>c. \<not> is_surrogate c) s"

text \<open>
  \<^verbatim>\<open>f"{url}"\<close> can be printed: a string is formatted as it is; the text of
  every other value (a number, \<^verbatim>\<open>True\<close>, \<^verbatim>\<open>None\<close>) is ASCII.
\<close>

fun url_printable :: "pyval \<Rightarrow> bool" where
  "url_printable (PStr s) = printable s"
| "url_printable v = True"

text \<open>
  The loop of lines 97 to 104 from the \<open>i\<close>-th URL on, \<open>n\<close> being
  \<^verbatim>\<open>len(urls_to_check)\<close>: the lines printed, and the entries appended to
  \<^verbatim>\<open>broken_links\<close> when the loop runs to its end.  The loop is left at the first
  \<^verbatim>\<open>print\<close> that raises (line 98 before the probe, line 102 after it) and at the
  first call of \<^verbatim>\<open>check_link\<close> that does not return.
\<close>

fun check_all ::
  "(pyval \<Rightarrow> head_result) \<Rightarrow> nat \<Rightarrow> nat \<Rightarrow> pyval list \<Rightarrow>
     line list \<times> (pyval \<times> ustr) list outcome" where
  "check_all session n i [] = ([], Returns [])"
| "check_all session n i (url # urls) =
     (if \<not> url_printable url then ([], Uncaught UnicodeEncodeError)
      else
        (case check_link url session of
           SysExit k \<Rightarrow> ([Checking (Suc i) n url], SysExit k)
         | Uncaught e \<Rightarrow> ([Checking (Suc i) n url], Uncaught e)
         | Returns status \<Rightarrow>
             if status \<noteq> u ''OK'' \<and> \<not> printable status
             then ([Checking (Suc i) n url], Uncaught UnicodeEncodeError)
             else
               (case check_all session n (Suc i) urls of
                  (out, SysExit k) \<Rightarrow> (Checking (Suc i) n url # Arrow status # out, SysExit k)
                | (out, Uncaught e) \<Rightarrow> (Checking (Suc i) n url # Arrow status # out, Uncaught e)
                | (out, Returns broken) \<Rightarrow>
                    (Checking (Suc i) n url # Arrow status # out,
                     Returns ((if status \<noteq> u ''OK'' then [(url, status)] else []) @ broken)))))"

text \<open>
  The loop of lines 112 and 113: one line for each broken link, up to the first that
  cannot be printed.
\<close>

fun print_broken :: "(pyval \<times> ustr) list \<Rightarrow> line list \<times> unit outcome" where
  "print_broken [] = ([], Returns ())"
| "print_broken ((url, reason) # broken_links) =
     (if url_printable url \<and> printable reason
      then (case print_broken broken_links of (out, r) \<Rightarrow> (BrokenLink url reason # out, r))
      else ([], Uncaught UnicodeEncodeError))"

definition main ::
  "(pyval list \<Rightarrow> pyval list) \<Rightarrow> file_read \<Rightarrow> (pyval \<Rightarrow> head_result) \<Rightarrow> line list \<times> unit outcome" where
  "main order html_file session =
     (case extract_urls_from_js order html_file of
        (out, SysExit n) \<Rightarrow> (out, SysExit n)
      | (out, Uncaught e) \<Rightarrow> (out, Uncaught e)
      | (out, Returns urls_to_check) \<Rightarrow>
          if urls_to_check = [] then (out @ [NoUrlsFound], Returns ())
          else
            (case check_all session (length urls_to_check) 0 urls_to_check of
               (checks, SysExit n) \<Rightarrow> (out @ checks, SysExit n)
             | (checks, Uncaught e) \<Rightarrow> (out @ checks, Uncaught e)
             | (checks, Returns broken_links) \<Rightarrow>
                 if broken_links = [] then (out @ checks @ [CheckComplete, AllWorking], Returns ())
                 else
                   (case print_broken broken_links of
                      (listed, Returns x) \<Rightarrow>
                        (out @ checks @ [CheckComplete, FoundBroken (length broken_links)] @ listed,
                         SysExit 1)
                    | (listed, r) \<Rightarrow>
                        (out @ checks @ [CheckComplete, FoundBroken (length broken_links)] @ listed,
                         r))))"

text \<open>
  The exit code of the process: 0 when \<^verbatim>\<open>main\<close> returns, the argument of
  \<^verbatim>\<open>sys.exit\<close>, and 1 after the traceback of an exception nobody caught.  After
  \<^verbatim>\<open>KeyboardInterrupt\<close> the interpreter ends the process by the signal, which a shell
  reports as 130.
\<close>

fun exit_code :: "unit outcome \<Rightarrow> nat" where
  "exit_code (Returns x) = 0"
| "exit_code (SysExit n) = n"
| "exit_code (Uncaught KeyboardInterrupt) = 130"
| "exit_code (Uncaught e) = 1"

text \<open>
  The report of a run: each URL of a \<^verbatim>\<open>Checking\<close> line with the status of the line
  printed after it.
\<close>

fun report :: "line list \<Rightarrow> (pyval \<times> ustr) list" where
  "report (Checking i n url # Arrow status # rest) = (url, status) # report rest"
| "report (l # rest) = report rest"
| "report [] = []"

section \<open>The URL set, in the words of the specification\<close>

text \<open>
  The values of one field of a record: the value under the key when the record is
  an object that has the key and the value is not empty.
\<close>

definition field_values :: "ustr \<Rightarrow> pyval \<Rightarrow> pyval list" where
  "field_values key item =
     (case item of
        PDict kvs \<Rightarrow> (case map_of kvs key of Some v \<Rightarrow> if truthy v then [v] else [] | None \<Rightarrow> [])
      | _ \<Rightarrow> [])"

text \<open>The primary URL field and the homepage URL field of a record.\<close>

definition record_urls :: "pyval \<Rightarrow> pyval list" where
  "record_urls item = field_values (u ''url'') item @ field_values (u ''homepageUrl'') item"

text \<open>The URL values of the records of a block that was parsed; none for a block that was not.\<close>

definition block_urls :: "ustr \<Rightarrow> pyval list" where
  "block_urls array_content =
     (case json_loads (normalise array_content) of
        Some (PList records) \<Rightarrow> concat (map record_urls records)
      | _ \<Rightarrow> [])"

text \<open>All blocks of the document, in the order of the document.\<close>

definition spec_urls :: "(ustr \<times> ustr) list \<Rightarrow> pyval list" where
  "spec_urls found = concat (map (\<lambda>(name, content). block_urls content) found)"

section \<open>Auxiliary notions\<close>

text \<open>The lines that announce the check of a URL.\<close>

fun is_checking :: "line \<Rightarrow> bool" where
  "is_checking (Checking i n url) = True"
| "is_checking l = False"

text \<open>No two elements of the list are equal as a set sees them.\<close>

definition py_distinct :: "pyval list \<Rightarrow> bool" where
  "py_distinct urls \<longleftrightarrow> distinct urls \<and> (\<forall>x \<in> set urls. \<forall>y \<in> set urls. py_eq x y \<longrightarrow> x = y)"

text \<open>
  \<open>urls'\<close> is the set \<open>urls\<close> after the values \<open>vs\<close> were added: nothing is lost,
  nothing else comes in, every value is there up to equality, and no element is
  there twice.
\<close>

definition absorbs :: "pyval list \<Rightarrow> pyval list \<Rightarrow> pyval list \<Rightarrow> bool" where
  "absorbs urls vs urls' \<longleftrightarrow>
     set urls \<subseteq> set urls' \<and> set urls' \<subseteq> set urls \<union> set vs \<and>
     (\<forall>w \<in> set vs. \<exists>x \<in> set urls'. py_eq x w) \<and>
     (py_distinct urls \<longrightarrow> py_distinct urls')"








text \<open>The documents and the session of the examples.\<close>

definition example_doc :: ustr where
  "example_doc =
     u ''<script> const institutes = [{'' @ dq ''name'' @ u '':'' @ dq ''A'' @ u '','' @ dq ''url'' @ u '':''
       @ dq ''https://good.example'' @ u ''},{'' @ dq ''name'' @ u '':'' @ dq ''B'' @ u '','' @ dq ''url''
       @ u '':'' @ dq ''https://bad.example'' @ u '',}]; </script>''"

definition example_session :: "pyval \<Rightarrow> head_result" where
  "example_session url =
     (if url = PStr (u ''https://good.example'') then Response 200 else Response 404)"

text \<open>
  Documents with the JSON escape of the lone surrogate U+D800 (a backslash followed
  by \<^verbatim>\<open>ud800\<close>) as a URL.
\<close>

definition surrogate_doc :: ustr where
  "surrogate_doc =
     u ''const institutes = [{'' @ dq ''url'' @ u '':'' @ DQUOTE # BACKSLASH # u ''ud800''
       @ DQUOTE # u ''}];''"

definition surrogate_second_doc :: ustr where
  "surrogate_second_doc =
     u ''const institutes = [{'' @ dq ''url'' @ u '':'' @ dq ''https://a.example'' @ u ''},{''
       @ dq ''url'' @ u '':'' @ DQUOTE # BACKSLASH # u ''ud800'' @ DQUOTE # u ''}];''"

definition numbers_doc :: ustr where
  "numbers_doc =
     u ''const institutes = [{'' @ dq ''url'' @ u '':'' @ dq ''https://a.example''
       @ u ''}]; const jobBoards = [1, 2];''"

definition list_url_doc :: ustr where
  "list_url_doc =
     u ''const jobBoards = [{'' @ dq ''url'' @ u '':['' @ dq ''https://a.example'' @ u '']}];''"

definition broken_block_doc :: ustr where
  "broken_block_doc =
     u ''const institutes = [{]; const jobBoards = [{'' @ dq ''url'' @ u '':''
       @ dq ''https://a.example'' @ u ''}];''"

definition duplicates_doc :: ustr where
  "duplicates_doc =
     u ''const institutes = [{'' @ dq ''url'' @ u '':'' @ dq ''https://a.example'' @ u '',''
       @ dq ''homepageUrl'' @ u '':'' @ dq ''https://h.example'' @ u ''},{'' @ dq ''name'' @ u '':''
       @ dq ''B'' @ u '','' @ dq ''url'' @ u '':'' @ dq '''' @ u ''},{'' @ dq ''name'' @ u '':'' @ dq ''C''
       @ u ''}]; const jobBoards = [{'' @ dq ''url'' @ u '':'' @ dq ''https://h.example'' @ u ''},{''
       @ dq ''homepageUrl'' @ u '':'' @ dq ''https://a.example'' @ u ''}];''"





section \<open>Evaluation\<close>

declare str_nat.simps [simp del]

lemmas chars =
  DQUOTE_def SQUOTE_def BACKTICK_def BACKSLASH_def COMMA_def RBRACE_def LBRACE_def
  RBRACKET_def LBRACKET_def SEMICOLON_def COLON_def

lemma u_consts:
  "u ''const'' = [99, 111, 110, 115, 116]"
  "u ''institutes'' = [105, 110, 115, 116, 105, 116, 117, 116, 101, 115]"
  "u ''jobBoards'' = [106, 111, 98, 66, 111, 97, 114, 100, 115]"
  "u ''='' = [61]"
  "u ''null'' = [110, 117, 108, 108]"
  "u ''true'' = [116, 114, 117, 101]"
  "u ''false'' = [102, 97, 108, 115, 101]"
  "u ''NaN'' = [78, 97, 78]"
  "u ''Infinity'' = [73, 110, 102, 105, 110, 105, 116, 121]"
  "u ''-Infinity'' = [45, 73, 110, 102, 105, 110, 105, 116, 121]"
  "u ''url'' = [117, 114, 108]"
  "u ''homepageUrl'' = [104, 111, 109, 101, 112, 97, 103, 101, 85, 114, 108]"
  by (simp_all add: u_def)

lemmas regex_eval = match_here_def match_assignment_def is_space_def

lemmas json_eval =
  json_loads_def normalise_def replace_quotes_def is_json_ws_def punct_def scan_scalar_def
  scan_number_def scan_int_part_def scan_frac_def scan_exp_def is_digit_def digits_val_def
  hex4_def hex_val_def simple_escape_def join_surrogate_def parse_tokens_def

lemmas extract_eval =
  extract_urls_from_js_def add_item_def check_field_def set_add_def py_eq_def

lemma str_nat_digit: "n < 10 \<Longrightarrow> str_nat n = [''0123456789'' ! n]"
  by (simp add: str_nat.simps)

lemma str_nat_more: "10 \<le> n \<Longrightarrow> str_nat n = str_nat (n div 10) @ [''0123456789'' ! (n mod 10)]"
  by (subst str_nat.simps) simp

section \<open>The link check\<close>

text \<open>
  C2.  \<^verbatim>\<open>check_link\<close> can raise.  \<^verbatim>\<open>KeyboardInterrupt\<close> and \<^verbatim>\<open>SystemExit\<close> during
  the probe are not under \<^verbatim>\<open>Exception\<close> and pass both handlers; an exception whose
  \<^verbatim>\<open>str\<close> raises is caught by the last handler, and what the formatting of its
  message raises leaves the call.
\<close>

theorem check_link_raises_counterexample:
  "check_link (PStr (u ''https://a.example'')) (\<lambda>url. RaisesKeyboardInterrupt)
     = Uncaught KeyboardInterrupt \<and>
   check_link (PStr (u ''https://a.example'')) (\<lambda>url. RaisesSystemExit 3) = SysExit 3 \<and>
   check_link (PStr (u ''https://a.example''))
       (\<lambda>url. OtherException (Uncaught (OtherError ''RuntimeError'')))
     = Uncaught (OtherError ''RuntimeError'')"
  by (simp add: check_link_def)

text \<open>
  C2, as it holds.  \<^verbatim>\<open>check_link\<close> returns exactly when the probe ends with a
  response, with an exception under \<^verbatim>\<open>RequestException\<close>, or with another
  \<^verbatim>\<open>Exception\<close> whose message can be formatted; what it returns then is a status
  string: \<^verbatim>\<open>OK\<close>, or a text that starts with \<^verbatim>\<open>FAILED: \<close> and carries the reason.
\<close>

theorem check_link_returns_status:
  "((\<exists>status. check_link url session = Returns status) \<longleftrightarrow>
      (\<exists>code. session url = Response code) \<or>
      (\<exists>kind. session url = RequestException kind) \<or>
      (\<exists>message. session url = OtherException (Returns message))) \<and>
   (\<forall>status. check_link url session = Returns status \<longrightarrow>
      status = u ''OK'' \<or> (\<exists>reason. status = u ''FAILED: '' @ reason))"
proof (cases "session url")
  case (OtherException str_e)
  then show ?thesis
    by (cases str_e) (auto simp: check_link_def u_def)
qed (auto simp: check_link_def u_def)

text \<open>
  A response, a timeout and a \<^verbatim>\<open>ValueError\<close> with the message \<^verbatim>\<open>boom\<close> give a
  status; \<^verbatim>\<open>KeyboardInterrupt\<close> gives none.
\<close>

theorem check_link_returns_status_witness:
  "(\<exists>status. check_link (PStr (u ''https://a.example'')) (\<lambda>url. Response 503) = Returns status) \<and>
   (\<exists>status. check_link (PStr (u ''https://a.example'')) (\<lambda>url. RequestException ''Timeout'')
      = Returns status) \<and>
   check_link (PStr (u ''https://a.example'')) (\<lambda>url. OtherException (Returns (u ''boom'')))
     = Returns (u ''FAILED: An unexpected error occurred (boom)'') \<and>
   (\<exists>reason. u ''FAILED: An unexpected error occurred (boom)'' = u ''FAILED: '' @ reason) \<and>
   \<not> (\<exists>status. check_link (PStr (u ''https://a.example'')) (\<lambda>url. RaisesKeyboardInterrupt)
      = Returns status)"
proof -
  let ?url = "PStr (u ''https://a.example'')"
  have c: "check_link ?url (\<lambda>url. OtherException (Returns (u ''boom'')))
     = Returns (u ''FAILED: An unexpected error occurred (boom)'')"
    by (simp add: check_link_def u_def)
  from check_link_returns_status [of ?url "\<lambda>url. Response 503"]
  have 1: "\<exists>status. check_link ?url (\<lambda>url. Response 503) = Returns status" by simp
  from check_link_returns_status [of ?url "\<lambda>url. RequestException ''Timeout''"]
  have 2: "\<exists>status. check_link ?url (\<lambda>url. RequestException ''Timeout'') = Returns status" by simp
  from check_link_returns_status [of ?url "\<lambda>url. OtherException (Returns (u ''boom''))"] c
  have 3: "\<exists>reason. u ''FAILED: An unexpected error occurred (boom)'' = u ''FAILED: '' @ reason"
    by (simp add: u_def)
  from check_link_returns_status [of ?url "\<lambda>url. RaisesKeyboardInterrupt"]
  have 4: "\<not> (\<exists>status. check_link ?url (\<lambda>url. RaisesKeyboardInterrupt) = Returns status)" by simp
  from c 1 2 3 4 show ?thesis by blast
qed

text \<open>
  C3.  The classification of a probe.  A response with a status code below 400 gives
  \<^verbatim>\<open>OK\<close>; a response with a status code of 400 or more gives \<^verbatim>\<open>FAILED: Status\<close>
  followed by the code in decimal; a transport failure (an exception under
  \<^verbatim>\<open>RequestException\<close>: timeout, DNS, refused connection, TLS) gives
  \<^verbatim>\<open>FAILED: Request Error (\<close> the name of its class \<^verbatim>\<open>)\<close>, which begins with
  \<^verbatim>\<open>FAILED\<close>.
\<close>

theorem check_link_classification:
  "(session url = Response code \<and> code < 400 \<longrightarrow> check_link url session = Returns (u ''OK'')) \<and>
   (session url = Response code \<and> 400 \<le> code \<longrightarrow>
      check_link url session = Returns (u ''FAILED: Status '' @ u (str_int code))) \<and>
   (session url = RequestException kind \<longrightarrow>
      check_link url session = Returns (u ''FAILED: Request Error ('' @ u kind @ u '')'') \<and>
      (\<exists>status. check_link url session = Returns status \<and> take 6 status = u ''FAILED''))"
  by (simp add: check_link_def u_def)

text \<open>
  The cases the specification names: 200 gives \<^verbatim>\<open>OK\<close>, 404 gives a status with
  \<^verbatim>\<open>404\<close> in it, a connection timeout gives a status that begins with \<^verbatim>\<open>FAILED\<close>.
\<close>

theorem check_link_classification_witness:
  "check_link (PStr (u ''https://good.example'')) (\<lambda>url. Response 200) = Returns (u ''OK'') \<and>
   check_link (PStr (u ''https://bad.example'')) (\<lambda>url. Response 404)
     = Returns (u ''FAILED: Status 404'') \<and>
   check_link (PStr (u ''https://slow.example'')) (\<lambda>url. RequestException ''ConnectTimeout'')
     = Returns (u ''FAILED: Request Error (ConnectTimeout)'') \<and>
   (\<exists>status. check_link (PStr (u ''https://slow.example'')) (\<lambda>url. RequestException ''ConnectTimeout'')
      = Returns status \<and> take 6 status = u ''FAILED'')"
  using
    check_link_classification [of "\<lambda>url. Response 200" "PStr (u ''https://good.example'')" 200]
    check_link_classification [of "\<lambda>url. Response 404" "PStr (u ''https://bad.example'')" 404]
    check_link_classification [of "\<lambda>url. RequestException ''ConnectTimeout''"
      "PStr (u ''https://slow.example'')" _ "''ConnectTimeout''"]
  by (simp add: str_int_def str_nat_digit str_nat_more u_def)

section \<open>The run\<close>

lemma report_skip: "\<forall>l \<in> set xs. \<not> is_checking l \<Longrightarrow> report (xs @ ys) = report ys"
proof (induction xs)
  case Nil
  then show ?case by simp
next
  case (Cons l xs)
  then have "\<not> is_checking l" by simp
  then have "report (l # (xs @ ys)) = report (xs @ ys)"
    by (cases l) simp_all
  with Cons show ?case by simp
qed

lemma report_Checking:
  "\<forall>status rest. ys \<noteq> Arrow status # rest \<Longrightarrow> report (Checking i n url # ys) = report ys"
proof (cases ys)
  case Nil
  then show ?thesis by simp
next
  case (Cons l rest)
  assume "\<forall>status rest. ys \<noteq> Arrow status # rest"
  with Cons show ?thesis by (cases l) simp_all
qed

text \<open>The lines of the loop, followed by lines that do not begin with a status.\<close>

lemma report_check_all:
  "\<forall>status rest. ys \<noteq> Arrow status # rest \<Longrightarrow>
   report (fst (check_all session n i urls) @ ys) = report (fst (check_all session n i urls)) @ report ys"
proof (induction urls arbitrary: i)
  case Nil
  then show ?case by simp
next
  case (Cons url urls)
  obtain out r where ca: "check_all session n (Suc i) urls = (out, r)"
    by (cases "check_all session n (Suc i) urls")
  have nil: "\<forall>status rest. [] \<noteq> Arrow status # rest" by simp
  have ih: "report (out @ ys) = report out @ report ys"
    using Cons.IH [OF Cons.prems, of "Suc i"] ca by simp
  show ?case
    using ih ca report_Checking [OF Cons.prems] report_Checking [OF nil]
    by (simp split: outcome.splits)
qed

text \<open>The URLs of the report are an initial segment of the list of URLs.\<close>

lemma report_check_all_prefix:
  "\<exists>k \<le> length urls. map fst (report (fst (check_all session n i urls))) = take k urls"
proof (induction urls arbitrary: i)
  case Nil
  then show ?case by simp
next
  case (Cons url urls)
  obtain out r where ca: "check_all session n (Suc i) urls = (out, r)"
    by (cases "check_all session n (Suc i) urls")
  from Cons [of "Suc i"] ca obtain k where k: "k \<le> length urls"
    and t: "map fst (report out) = take k urls"
    by auto
  have 0: "0 \<le> length (url # urls) \<and> [] = take 0 (url # urls)" by simp
  have s: "Suc k \<le> length (url # urls) \<and> url # take k urls = take (Suc k) (url # urls)"
    using k by simp
  show ?case
  proof (cases "map fst (report (fst (check_all session n i (url # urls)))) = []")
    case True
    with 0 show ?thesis by metis
  next
    case False
    then have "map fst (report (fst (check_all session n i (url # urls)))) = url # take k urls"
      using t ca by (auto split: if_splits outcome.splits)
    with s show ?thesis by metis
  qed
qed

text \<open>Each result of the report is what the check of its URL returned.\<close>

lemma report_check_all_status:
  "\<forall>r \<in> set (report (fst (check_all session n i urls))). check_link (fst r) session = Returns (snd r)"
proof (induction urls arbitrary: i)
  case Nil
  then show ?case by simp
next
  case (Cons url urls)
  obtain out r where ca: "check_all session n (Suc i) urls = (out, r)"
    by (cases "check_all session n (Suc i) urls")
  have "\<forall>r \<in> set (report out). check_link (fst r) session = Returns (snd r)"
    using Cons [of "Suc i"] ca by simp
  then show ?case using ca by (simp split: outcome.splits)
qed

text \<open>
  The loop runs to its end when every URL can be printed and every check returns a
  status that can be printed.
\<close>

lemma check_all_complete:
  assumes "\<forall>url \<in> set urls. url_printable url \<and>
             (\<exists>status. check_link url session = Returns status \<and> printable status)"
  shows "\<exists>out. check_all session n i urls =
                 (out, Returns (filter (\<lambda>r. snd r \<noteq> u ''OK'') (report out))) \<and>
               map fst (report out) = urls \<and>
               (\<forall>r \<in> set (report out). url_printable (fst r) \<and> printable (snd r))"
  using assms
proof (induction urls arbitrary: i)
  case Nil
  then show ?case by simp
next
  case (Cons url urls)
  from Cons.prems obtain status where p: "url_printable url"
    and c: "check_link url session = Returns status" and s: "printable status"
    by auto
  from Cons.prems have "\<forall>url \<in> set urls. url_printable url \<and>
      (\<exists>status. check_link url session = Returns status \<and> printable status)"
    by simp
  from Cons.IH [OF this, of "Suc i"] obtain out where
    o: "check_all session n (Suc i) urls = (out, Returns (filter (\<lambda>r. snd r \<noteq> u ''OK'') (report out)))"
    and m: "map fst (report out) = urls"
    and a: "\<forall>r \<in> set (report out). url_printable (fst r) \<and> printable (snd r)"
    by blast
  let ?out = "Checking (Suc i) n url # Arrow status # out"
  have "check_all session n i (url # urls) =
          (?out, Returns (filter (\<lambda>r. snd r \<noteq> u ''OK'') (report ?out))) \<and>
        map fst (report ?out) = url # urls \<and>
        (\<forall>r \<in> set (report ?out). url_printable (fst r) \<and> printable (snd r))"
    using p c s o m a by simp
  then show ?case by (rule exI [of _ ?out])
qed

lemma print_broken_lines: "\<forall>l \<in> set (fst (print_broken bs)). \<not> is_checking l"
  by (induction bs rule: print_broken.induct) (auto split: prod.splits)

lemma print_broken_Returns:
  "\<forall>r \<in> set bs. url_printable (fst r) \<and> printable (snd r) \<Longrightarrow> snd (print_broken bs) = Returns ()"
  by (induction bs rule: print_broken.induct) (auto split: prod.splits)

lemma process_arrays_lines:
  "\<forall>l \<in> set (fst (process_arrays found urls)). \<not> is_checking l"
  by (induction found urls rule: process_arrays.induct)
     (auto split: option.splits sum.splits prod.splits)

lemma extract_lines:
  "\<forall>l \<in> set (fst (extract_urls_from_js order html_file)). \<not> is_checking l"
proof (cases html_file)
  case (FileText html)
  have "\<forall>l \<in> set (fst (process_arrays (findall html) [])). \<not> is_checking l"
    by (rule process_arrays_lines)
  then show ?thesis using FileText
    by (auto simp: extract_urls_from_js_def Let_def split: prod.splits sum.splits)
qed (simp_all add: extract_urls_from_js_def)

text \<open>The report of a run that reaches the loop is the report of the loop.\<close>

lemma report_main:
  assumes "snd (extract_urls_from_js order html_file) = Returns urls"
  shows "report (fst (main order html_file session)) =
           report (fst (check_all session (length urls) 0 urls))"
proof -
  obtain out where ex: "extract_urls_from_js order html_file = (out, Returns urls)"
    using assms by (cases "extract_urls_from_js order html_file") auto
  have out: "\<forall>l \<in> set out. \<not> is_checking l"
    using extract_lines [of order html_file] ex by simp
  show ?thesis
  proof (cases "urls = []")
    case True
    with ex out show ?thesis by (simp add: main_def report_skip)
  next
    case False
    obtain checks r where ca: "check_all session (length urls) 0 urls = (checks, r)"
      by (cases "check_all session (length urls) 0 urls")
    have tail: "report (checks @ CheckComplete # ys) = report checks @ report ys" for ys
      using report_check_all [of "CheckComplete # ys" session "length urls" 0 urls] ca by simp
    have listed: "report (FoundBroken k # fst (print_broken bs)) = []" for k bs
      using report_skip [of "FoundBroken k # fst (print_broken bs)" "[]"] print_broken_lines [of bs]
      by simp
    show ?thesis
    proof (cases r)
      case (Returns broken)
      show ?thesis
      proof (cases "broken = []")
        case True
        with ex out False ca Returns tail show ?thesis by (simp add: main_def report_skip)
      next
        case b: False
        obtain ls q where pb: "print_broken broken = (ls, q)" by (cases "print_broken broken")
        with listed [of "length broken" broken]
        have "report (FoundBroken (length broken) # ls) = []" by simp
        with ex out False ca Returns tail b pb show ?thesis
          by (cases q) (simp_all add: main_def report_skip)
      qed
    next
      case (SysExit k)
      with ex out False ca show ?thesis by (simp add: main_def report_skip)
    next
      case (Uncaught e)
      with ex out False ca show ?thesis by (simp add: main_def report_skip)
    qed
  qed
qed

text \<open>How a run ends whose loop runs to its end.\<close>

lemma exit_main:
  assumes "snd (extract_urls_from_js order html_file) = Returns urls"
    and "\<forall>url \<in> set urls. url_printable url \<and>
           (\<exists>status. check_link url session = Returns status \<and> printable status)"
  shows "snd (main order html_file session) =
           (if \<forall>r \<in> set (report (fst (main order html_file session))). snd r = u ''OK''
            then Returns () else SysExit 1)"
proof -
  obtain out where ex: "extract_urls_from_js order html_file = (out, Returns urls)"
    using assms(1) by (cases "extract_urls_from_js order html_file") auto
  from check_all_complete [OF assms(2), of "length urls" 0] obtain checks where
    ca: "check_all session (length urls) 0 urls =
           (checks, Returns (filter (\<lambda>r. snd r \<noteq> u ''OK'') (report checks)))"
    and a: "\<forall>r \<in> set (report checks). url_printable (fst r) \<and> printable (snd r)"
    by blast
  let ?broken = "filter (\<lambda>r. snd r \<noteq> u ''OK'') (report checks)"
  have rep: "report (fst (main order html_file session)) = report checks"
    using report_main [OF assms(1), of session] ca by simp
  have e: "?broken = [] \<longleftrightarrow> (\<forall>r \<in> set (report checks). snd r = u ''OK'')"
    by (auto simp: filter_empty_conv)
  have "\<forall>r \<in> set ?broken. url_printable (fst r) \<and> printable (snd r)" using a by simp
  then have "snd (print_broken ?broken) = Returns ()" by (rule print_broken_Returns)
  then obtain ls where pb: "print_broken ?broken = (ls, Returns ())"
    by (cases "print_broken ?broken") auto
  show ?thesis
  proof (cases "urls = []")
    case True
    with ex rep ca show ?thesis by (simp add: main_def)
  next
    case False
    with ex ca pb e show ?thesis unfolding rep by (simp add: main_def)
  qed
qed

section \<open>The exit code\<close>

lemma example_extract:
  "extract_urls_from_js id (FileText example_doc) =
     ([ParsingFile, FoundArrays 1, FoundUrls 2],
      Returns [PStr (u ''https://good.example''), PStr (u ''https://bad.example'')])"
  apply (simp add: example_doc_def dq_def u_def chars)
  apply (simp add: u_consts regex_eval chars json_eval extract_eval)
  done

lemma example_statuses:
  "check_link (PStr (u ''https://good.example'')) example_session = Returns (u ''OK'')"
  "check_link (PStr (u ''https://bad.example'')) example_session = Returns (u ''FAILED: Status 404'')"
  by (simp_all add: check_link_def example_session_def u_def str_int_def str_nat_digit str_nat_more)

lemma example_printable:
  "printable (u ''https://good.example'')"
  "printable (u ''https://bad.example'')"
  "printable (u ''OK'')"
  "printable (u ''FAILED: Status 404'')"
  by (simp_all add: printable_def is_surrogate_def u_def)

lemma example_not_OK: "u ''FAILED: Status 404'' \<noteq> u ''OK''"
  by (simp add: u_def)

lemma no_arrays_here: "findall (u ''<html></html>'') = []"
  by (simp add: u_def u_consts regex_eval)

lemma surrogate_extract:
  "extract_urls_from_js id (FileText surrogate_doc) =
     ([ParsingFile, FoundArrays 1, FoundUrls 1], Returns [PStr [55296]])"
  apply (simp add: surrogate_doc_def dq_def u_def chars)
  apply (simp add: u_consts regex_eval chars json_eval extract_eval)
  done

lemma surrogate_second_extract:
  "extract_urls_from_js id (FileText surrogate_second_doc) =
     ([ParsingFile, FoundArrays 1, FoundUrls 2],
      Returns [PStr (u ''https://a.example''), PStr [55296]])"
  apply (simp add: surrogate_second_doc_def dq_def u_def chars)
  apply (simp add: u_consts regex_eval chars json_eval extract_eval)
  done

text \<open>
  C1.  A run can end with code 1 although no result is a failure.  The only URL of
  the document is the string of the lone surrogate U+D800.  Extraction returns it;
  the line that announces its check cannot be printed, \<^verbatim>\<open>print\<close> raises
  \<^verbatim>\<open>UnicodeEncodeError\<close> before the probe, nothing is reported, and the process ends
  with code 1 after the traceback, whatever the session would have answered.
\<close>

theorem exit_code_without_failure_counterexample:
  "snd (extract_urls_from_js id (FileText surrogate_doc)) = Returns [PStr [55296]] \<and>
   main id (FileText surrogate_doc) (\<lambda>url. Response 200) =
     ([ParsingFile, FoundArrays 1, FoundUrls 1], Uncaught UnicodeEncodeError) \<and>
   report (fst (main id (FileText surrogate_doc) (\<lambda>url. Response 200))) = [] \<and>
   exit_code (snd (main id (FileText surrogate_doc) (\<lambda>url. Response 200))) = 1"
  by (simp add: main_def surrogate_extract printable_def is_surrogate_def)

text \<open>
  C1, as it holds.  The exit code of a run whose loop runs to its end.  When
  extraction returns its URLs, every URL can be printed and every check returns a
  status that can be printed, the process ends with code 1 exactly when some result
  of the report is not \<^verbatim>\<open>OK\<close>, and with code 0 exactly when every result is
  \<^verbatim>\<open>OK\<close> (so also when there is no URL to check).  A missing input file gives code
  1, and so does a document in which no array is found.
\<close>

theorem main_exit_code:
  "(snd (extract_urls_from_js order html_file) = Returns urls \<and>
    (\<forall>url \<in> set urls. url_printable url \<and>
       (\<exists>status. check_link url session = Returns status \<and> printable status)) \<longrightarrow>
      (exit_code (snd (main order html_file session)) = 1 \<longleftrightarrow>
         (\<exists>r \<in> set (report (fst (main order html_file session))). snd r \<noteq> u ''OK'')) \<and>
      (exit_code (snd (main order html_file session)) = 0 \<longleftrightarrow>
         (\<forall>r \<in> set (report (fst (main order html_file session))). snd r = u ''OK''))) \<and>
   exit_code (snd (main order FileNotFound session)) = 1 \<and>
   (findall html = [] \<longrightarrow> exit_code (snd (main order (FileText html) session)) = 1)"
proof (intro conjI impI)
  assume "snd (extract_urls_from_js order html_file) = Returns urls \<and>
    (\<forall>url \<in> set urls. url_printable url \<and>
       (\<exists>status. check_link url session = Returns status \<and> printable status))"
  then have e: "snd (main order html_file session) =
           (if \<forall>r \<in> set (report (fst (main order html_file session))). snd r = u ''OK''
            then Returns () else SysExit 1)"
    using exit_main [of order html_file urls session] by blast
  show "exit_code (snd (main order html_file session)) = 1 \<longleftrightarrow>
         (\<exists>r \<in> set (report (fst (main order html_file session))). snd r \<noteq> u ''OK'')"
    unfolding e by auto
  show "exit_code (snd (main order html_file session)) = 0 \<longleftrightarrow>
         (\<forall>r \<in> set (report (fst (main order html_file session))). snd r = u ''OK'')"
    unfolding e by auto
next
  show "exit_code (snd (main order FileNotFound session)) = 1"
    by (simp add: main_def extract_urls_from_js_def)
next
  assume "findall html = []"
  then show "exit_code (snd (main order (FileText html) session)) = 1"
    by (simp add: main_def extract_urls_from_js_def)
qed

text \<open>
  The example of the specification: one link answers 200 and one 404, so the run
  fails; with every link answering 200 it succeeds; a page without arrays fails.
\<close>

theorem main_exit_code_witness:
  "snd (extract_urls_from_js id (FileText example_doc)) =
     Returns [PStr (u ''https://good.example''), PStr (u ''https://bad.example'')] \<and>
   report (fst (main id (FileText example_doc) example_session)) =
     [(PStr (u ''https://good.example''), u ''OK''),
      (PStr (u ''https://bad.example''), u ''FAILED: Status 404'')] \<and>
   exit_code (snd (main id (FileText example_doc) example_session)) = 1 \<and>
   exit_code (snd (main id (FileText example_doc) (\<lambda>url. Response 200))) = 0 \<and>
   findall (u ''<html></html>'') = [] \<and>
   exit_code (snd (main id (FileText (u ''<html></html>'')) example_session)) = 1"
proof -
  let ?urls = "[PStr (u ''https://good.example''), PStr (u ''https://bad.example'')]"
  have r: "snd (extract_urls_from_js id (FileText example_doc)) = Returns ?urls"
    by (simp add: example_extract)
  have rep: "report (fst (main id (FileText example_doc) example_session)) =
     [(PStr (u ''https://good.example''), u ''OK''),
      (PStr (u ''https://bad.example''), u ''FAILED: Status 404'')]"
    by (simp add: report_main [OF r] example_statuses example_printable example_not_OK)
  have ok: "check_link url (\<lambda>url. Response 200) = Returns (u ''OK'')" for url
    by (simp add: check_link_def)
  have rep2: "report (fst (main id (FileText example_doc) (\<lambda>url. Response 200))) =
     [(PStr (u ''https://good.example''), u ''OK''), (PStr (u ''https://bad.example''), u ''OK'')]"
    by (simp add: report_main [OF r] ok example_printable)
  from main_exit_code [of id "FileText example_doc" ?urls example_session "u ''<html></html>''"] r rep
  have 1: "exit_code (snd (main id (FileText example_doc) example_session)) = 1"
    and 3: "exit_code (snd (main id (FileText (u ''<html></html>'')) example_session)) = 1"
    by (simp_all add: no_arrays_here example_statuses example_printable example_not_OK)
  from main_exit_code [of id "FileText example_doc" ?urls "\<lambda>url. Response 200"] r rep2
  have 2: "exit_code (snd (main id (FileText example_doc) (\<lambda>url. Response 200))) = 0"
    by (simp add: ok example_printable)
  show ?thesis using r rep 1 2 3 no_arrays_here by simp
qed

section \<open>The URL set\<close>

lemma py_eq_refl: "py_eq a a"
  by (cases "num_of a") (simp_all add: py_eq_def)

lemma py_eq_sym: "py_eq a b \<Longrightarrow> py_eq b a"
  by (auto simp: py_eq_def split: option.splits)

lemma py_eq_trans: "py_eq a b \<Longrightarrow> py_eq b c \<Longrightarrow> py_eq a c"
  by (auto simp: py_eq_def split: option.splits)

lemma py_eq_PStr: "py_eq x (PStr s) \<longleftrightarrow> x = PStr s"
  by (cases x) (auto simp: py_eq_def)

lemma absorbs_Nil: "absorbs urls [] urls"
  by (simp add: absorbs_def)

lemma absorbs_append:
  assumes "absorbs urls vs urls'" and "absorbs urls' ws urls''"
  shows "absorbs urls (vs @ ws) urls''"
  using assms unfolding absorbs_def by (auto 4 3)

lemma set_add_absorbs:
  assumes "set_add v urls = Inr urls'"
  shows "absorbs urls [v] urls'"
proof (cases "list_ex (\<lambda>x. py_eq x v) urls")
  case True
  with assms have "urls' = urls" by (simp add: set_add_def split: if_splits)
  with True show ?thesis by (auto simp: absorbs_def list_ex_iff)
next
  case False
  with assms have urls': "urls' = urls @ [v]" by (simp add: set_add_def split: if_splits)
  from False have no: "\<forall>x \<in> set urls. \<not> py_eq x v" by (simp add: list_ex_iff)
  then have "v \<notin> set urls" using py_eq_refl by blast
  moreover have "\<forall>x \<in> set urls. \<not> py_eq v x" using no py_eq_sym by blast
  ultimately have "py_distinct urls \<longrightarrow> py_distinct (urls @ [v])"
    using no by (auto simp: py_distinct_def)
  then show ?thesis using urls' py_eq_refl by (auto simp: absorbs_def)
qed

lemma check_field_absorbs:
  assumes "check_field key item urls = Inr urls'"
  shows "absorbs urls (field_values key item) urls'"
proof (cases item)
  case (PDict kvs)
  show ?thesis
  proof (cases "map_of kvs key")
    case None
    then have "key \<notin> set (map fst kvs)" by (simp add: map_of_eq_None_iff)
    with assms PDict None show ?thesis
      by (simp add: check_field_def field_values_def absorbs_Nil)
  next
    case (Some v)
    then have "key \<in> set (map fst kvs)" by (metis map_of_eq_None_iff option.distinct(1) set_map)
    with assms PDict Some show ?thesis
      by (auto simp: check_field_def field_values_def absorbs_Nil split: if_splits
               intro: set_add_absorbs)
  qed
next
  case (PList xs)
  with assms show ?thesis
    by (auto simp: check_field_def field_values_def absorbs_Nil split: if_splits bool.splits)
next
  case (PStr s)
  with assms show ?thesis
    by (auto simp: check_field_def field_values_def absorbs_Nil split: if_splits bool.splits)
qed (use assms in \<open>simp_all add: check_field_def\<close>)

lemma add_item_absorbs:
  assumes "add_item item urls = Inr urls'"
  shows "absorbs urls (record_urls item) urls'"
proof -
  from assms obtain mid where 1: "check_field (u ''url'') item urls = Inr mid"
    and 2: "check_field (u ''homepageUrl'') item mid = Inr urls'"
    by (auto simp: add_item_def split: sum.splits)
  show ?thesis unfolding record_urls_def
    by (rule absorbs_append [OF check_field_absorbs [OF 1] check_field_absorbs [OF 2]])
qed

lemma add_items_absorbs:
  "add_items items urls = Inr urls' \<Longrightarrow> absorbs urls (concat (map record_urls items)) urls'"
proof (induction items arbitrary: urls)
  case Nil
  then show ?case by (simp add: absorbs_Nil)
next
  case (Cons item items)
  then obtain mid where 1: "add_item item urls = Inr mid" and 2: "add_items items mid = Inr urls'"
    by (auto split: sum.splits)
  show ?case using absorbs_append [OF add_item_absorbs [OF 1] Cons.IH [OF 2]] by simp
qed

lemma record_urls_PStr: "record_urls (PStr s) = []"
  by (simp add: record_urls_def field_values_def)

lemma block_absorbs:
  assumes "json_loads (normalise content) = Some data" and "py_iter data = Inr items"
    and "add_items items urls = Inr urls'"
  shows "absorbs urls (block_urls content) urls'"
proof -
  have "concat (map record_urls items) = block_urls content"
  proof (cases data)
    case (PList xs)
    with assms show ?thesis by (simp add: block_urls_def)
  next
    case (PDict kvs)
    with assms have "items = map (\<lambda>kv. PStr (fst kv)) kvs" by simp
    then have "concat (map record_urls items) = []" by (simp add: record_urls_PStr)
    with assms PDict show ?thesis by (simp add: block_urls_def)
  next
    case (PStr s)
    with assms have "items = map (\<lambda>c. PStr [c]) s" by simp
    then have "concat (map record_urls items) = []" by (simp add: record_urls_PStr)
    with assms PStr show ?thesis by (simp add: block_urls_def)
  qed (use assms in simp_all)
  with add_items_absorbs [OF assms(3)] show ?thesis by simp
qed

lemma process_arrays_absorbs:
  "process_arrays found urls = (out, Inr urls') \<Longrightarrow> absorbs urls (spec_urls found) urls'"
proof (induction found urls arbitrary: out rule: process_arrays.induct)
  case (1 urls)
  then show ?case by (simp add: spec_urls_def absorbs_Nil)
next
  case (2 array_name array_content found urls)
  show ?case
  proof (cases "json_loads (normalise array_content)")
    case None
    with "2.prems" obtain out' where "process_arrays found urls = (out', Inr urls')"
      by (auto split: prod.splits)
    from "2.IH"(1) [OF None this] None show ?thesis
      by (simp add: spec_urls_def block_urls_def)
  next
    case (Some data)
    with "2.prems" obtain items mid where i: "py_iter data = Inr items"
      and a: "add_items items urls = Inr mid" and p: "process_arrays found mid = (out, Inr urls')"
      by (auto split: sum.splits)
    have "absorbs urls (block_urls array_content) mid"
      by (rule block_absorbs [OF Some i a])
    from absorbs_append [OF this "2.IH"(2) [OF Some i a p]] show ?thesis
      by (simp add: spec_urls_def)
  qed
qed

section \<open>The report\<close>

lemma example_urls_differ: "u ''https://bad.example'' \<noteq> u ''https://good.example''"
  by (simp add: u_def)

lemma extract_Returns:
  assumes "snd (extract_urls_from_js order html_file) = Returns urls"
  obtains html out urls0 where "html_file = FileText html" and "findall html \<noteq> []"
    and "process_arrays (findall html) [] = (out, Inr urls0)" and "urls = order urls0"
  using assms
  by (cases html_file)
     (auto simp: extract_urls_from_js_def Let_def split: if_splits prod.splits sum.splits)

lemma py_distinct_Nil: "py_distinct []"
  by (simp add: py_distinct_def)

lemma extract_absorbs:
  assumes "snd (extract_urls_from_js order html_file) = Returns urls"
  obtains html urls0 where "html_file = FileText html" and "urls = order urls0"
    and "absorbs [] (spec_urls (findall html)) urls0" and "py_distinct urls0"
proof -
  from assms obtain html out urls0 where f: "html_file = FileText html"
    and p: "process_arrays (findall html) [] = (out, Inr urls0)" and o: "urls = order urls0"
    by (rule extract_Returns)
  have a: "absorbs [] (spec_urls (findall html)) urls0"
    by (rule process_arrays_absorbs [OF p])
  then have "py_distinct urls0" by (simp add: absorbs_def py_distinct_Nil)
  with f o a show ?thesis by (rule that)
qed

lemma order_distinct:
  assumes "\<And>xs. set (order xs) = set xs \<and> length (order xs) = length xs" and "distinct xs"
  shows "distinct (order xs)"
proof -
  have "card (set (order xs)) = length (order xs)"
    using assms distinct_card [of xs] by simp
  then show ?thesis by (rule card_distinct)
qed

text \<open>
  C4.  A report can be shorter than the URL set.  The document has two URLs, the
  second the string of the lone surrogate U+D800.  The first is checked and
  reported; the line that announces the check of the second cannot be printed, so
  the run ends there with \<^verbatim>\<open>UnicodeEncodeError\<close>: one result for two URLs.
\<close>

theorem report_shorter_than_url_set_counterexample:
  "snd (extract_urls_from_js id (FileText surrogate_second_doc)) =
     Returns [PStr (u ''https://a.example''), PStr [55296]] \<and>
   main id (FileText surrogate_second_doc) (\<lambda>url. Response 200) =
     ([ParsingFile, FoundArrays 1, FoundUrls 2,
       Checking 1 2 (PStr (u ''https://a.example'')), Arrow (u ''OK'')],
      Uncaught UnicodeEncodeError) \<and>
   report (fst (main id (FileText surrogate_second_doc) (\<lambda>url. Response 200))) =
     [(PStr (u ''https://a.example''), u ''OK'')] \<and>
   length (report (fst (main id (FileText surrogate_second_doc) (\<lambda>url. Response 200)))) = 1"
proof -
  have ok: "check_link url (\<lambda>url. Response 200) = Returns (u ''OK'')" for url
    by (simp add: check_link_def)
  have p: "printable (u ''https://a.example'')" "\<not> printable [55296]"
    by (simp_all add: printable_def is_surrogate_def u_def)
  show ?thesis
    by (simp add: main_def surrogate_second_extract ok p)
qed

text \<open>
  C4, as it holds.  At most one result per URL, and exactly one when the loop runs
  to its end.  Whenever extraction returns the URLs and \<^verbatim>\<open>list(urls)\<close> enumerates
  the set (each element once), the URLs of the report are an initial segment of the
  list of URLs, in that order; each result is the status that the check of its URL
  returned; no URL occurs twice.  When every URL can be printed and every check
  returns a status that can be printed, the report has exactly one result for every
  URL: its URLs are the list of URLs and it is as long as that list.
\<close>

theorem report_one_result_per_url:
  assumes "\<And>xs. set (order xs) = set xs \<and> length (order xs) = length xs"
    and "snd (extract_urls_from_js order html_file) = Returns urls"
  shows "(\<exists>k \<le> length urls. map fst (report (fst (main order html_file session))) = take k urls) \<and>
         (\<forall>r \<in> set (report (fst (main order html_file session))).
            check_link (fst r) session = Returns (snd r)) \<and>
         distinct (map fst (report (fst (main order html_file session)))) \<and>
         ((\<forall>url \<in> set urls. url_printable url \<and>
             (\<exists>status. check_link url session = Returns status \<and> printable status)) \<longrightarrow>
            map fst (report (fst (main order html_file session))) = urls \<and>
            length (report (fst (main order html_file session))) = length urls)"
proof -
  let ?rep = "report (fst (main order html_file session))"
  have rep: "?rep = report (fst (check_all session (length urls) 0 urls))"
    by (rule report_main [OF assms(2)])
  from report_check_all_prefix [of urls session "length urls" 0] obtain k
    where k: "k \<le> length urls" and t: "map fst ?rep = take k urls"
    unfolding rep by blast
  have st: "\<forall>r \<in> set ?rep. check_link (fst r) session = Returns (snd r)"
    unfolding rep by (rule report_check_all_status)
  from assms(2) obtain urls0 where "urls = order urls0" and "py_distinct urls0"
    by (rule extract_absorbs)
  then have "distinct urls" using order_distinct [OF assms(1)] by (simp add: py_distinct_def)
  then have d: "distinct (map fst ?rep)" unfolding t by (rule distinct_take)
  have c: "map fst ?rep = urls \<and> length ?rep = length urls"
    if "\<forall>url \<in> set urls. url_printable url \<and>
          (\<exists>status. check_link url session = Returns status \<and> printable status)"
  proof -
    from check_all_complete [OF that, of "length urls" 0] obtain out
      where "fst (check_all session (length urls) 0 urls) = out" and "map fst (report out) = urls"
      by auto
    then have m: "map fst ?rep = urls" unfolding rep by simp
    have "length ?rep = length (map fst ?rep)" by (simp only: length_map)
    with m show ?thesis by simp
  qed
  from k t have "\<exists>k \<le> length urls. map fst ?rep = take k urls" by blast
  with st d c show ?thesis by blast
qed

text \<open>
  The example of the specification, enumerated from the back: two URLs, two
  results, in the order of the enumeration.
\<close>

theorem report_one_result_per_url_witness:
  "snd (extract_urls_from_js rev (FileText example_doc)) =
     Returns [PStr (u ''https://bad.example''), PStr (u ''https://good.example'')] \<and>
   map fst (report (fst (main rev (FileText example_doc) example_session))) =
     [PStr (u ''https://bad.example''), PStr (u ''https://good.example'')] \<and>
   check_link (PStr (u ''https://bad.example'')) example_session = Returns (u ''FAILED: Status 404'') \<and>
   length (report (fst (main rev (FileText example_doc) example_session))) = 2 \<and>
   distinct (map fst (report (fst (main rev (FileText example_doc) example_session))))"
proof -
  have ex: "extract_urls_from_js rev (FileText example_doc) =
     ([ParsingFile, FoundArrays 1, FoundUrls 2],
      Returns (rev [PStr (u ''https://good.example''), PStr (u ''https://bad.example'')]))"
    using example_extract by (simp add: extract_urls_from_js_def Let_def split: if_splits prod.splits sum.splits)
  then have r: "snd (extract_urls_from_js rev (FileText example_doc)) =
     Returns [PStr (u ''https://bad.example''), PStr (u ''https://good.example'')]"
    by simp
  have o: "\<And>xs :: pyval list. set (rev xs) = set xs \<and> length (rev xs) = length xs" by simp
  from report_one_result_per_url [of rev, OF o r, of example_session] r
  show ?thesis by (simp add: example_statuses example_printable example_urls_differ)
qed

text \<open>
  C8.  Extraction gives the same URL set on the same document.  Two runs of
  \<^verbatim>\<open>extract_urls_from_js\<close> on the same file may enumerate the set in different
  orders; they print the same lines, end the same way, and the URLs they return are
  equal as sets.
\<close>

theorem extraction_same_url_set:
  assumes "\<And>xs. set (order1 xs) = set xs" and "\<And>xs. set (order2 xs) = set xs"
  shows "fst (extract_urls_from_js order1 html_file) = fst (extract_urls_from_js order2 html_file) \<and>
         map_outcome set (snd (extract_urls_from_js order1 html_file)) =
         map_outcome set (snd (extract_urls_from_js order2 html_file))"
  using assms
  by (cases html_file)
     (auto simp: extract_urls_from_js_def Let_def split: prod.splits sum.splits)

theorem extraction_same_url_set_witness:
  "map_outcome set (snd (extract_urls_from_js id (FileText example_doc))) =
     Returns {PStr (u ''https://good.example''), PStr (u ''https://bad.example'')} \<and>
   map_outcome set (snd (extract_urls_from_js rev (FileText example_doc))) =
     Returns {PStr (u ''https://good.example''), PStr (u ''https://bad.example'')} \<and>
   fst (extract_urls_from_js rev (FileText example_doc)) = [ParsingFile, FoundArrays 1, FoundUrls 2]"
proof -
  have 1: "\<And>xs :: pyval list. set (id xs) = set xs" and 2: "\<And>xs :: pyval list. set (rev xs) = set xs"
    by simp_all
  from extraction_same_url_set [of id rev "FileText example_doc", OF 1 2]
  show ?thesis by (simp add: example_extract)
qed

section \<open>What the URL set holds\<close>

text \<open>
  C6.  The URL set is the set of the non-empty URL values.  When extraction returns,
  every URL it returns is a non-empty value of the \<^verbatim>\<open>url\<close> or \<^verbatim>\<open>homepageUrl\<close>
  field of a record of a parsed block; every such value is in the set (up to the
  equality of \<^verbatim>\<open>set\<close>, which for strings is equality of strings); no URL is there
  twice.  A record without both keys and a field that is the empty string give no
  value.
\<close>

theorem url_set_is_field_values:
  assumes "\<And>xs. set (order xs) = set xs \<and> length (order xs) = length xs"
    and "snd (extract_urls_from_js order (FileText html)) = Returns urls"
  shows "set urls \<subseteq> set (spec_urls (findall html)) \<and>
         (\<forall>w \<in> set (spec_urls (findall html)). \<exists>x \<in> set urls. py_eq x w) \<and>
         (\<forall>s. PStr s \<in> set urls \<longleftrightarrow> PStr s \<in> set (spec_urls (findall html))) \<and>
         distinct urls \<and> (\<forall>x \<in> set urls. \<forall>y \<in> set urls. py_eq x y \<longrightarrow> x = y) \<and>
         (\<forall>kvs. map_of kvs (u ''url'') = None \<and> map_of kvs (u ''homepageUrl'') = None \<longrightarrow>
            record_urls (PDict kvs) = []) \<and>
         (\<forall>kvs key. map_of kvs key = Some (PStr []) \<longrightarrow> field_values key (PDict kvs) = [])"
proof -
  from assms(2) obtain urls0 where o: "urls = order urls0"
    and a: "absorbs [] (spec_urls (findall html)) urls0" and d: "py_distinct urls0"
    by (rule extract_absorbs) (simp only: file_read.inject)
  have s: "set urls = set urls0" using o assms(1) by simp
  have 1: "set urls \<subseteq> set (spec_urls (findall html))"
    using a s by (simp add: absorbs_def)
  have 2: "\<forall>w \<in> set (spec_urls (findall html)). \<exists>x \<in> set urls. py_eq x w"
    using a s by (simp add: absorbs_def)
  have 3: "PStr s \<in> set urls \<longleftrightarrow> PStr s \<in> set (spec_urls (findall html))" for s
  proof
    assume "PStr s \<in> set urls"
    with 1 show "PStr s \<in> set (spec_urls (findall html))" by (rule subsetD)
  next
    assume "PStr s \<in> set (spec_urls (findall html))"
    with 2 obtain x where "x \<in> set urls" and "py_eq x (PStr s)" by blast
    then show "PStr s \<in> set urls" by (simp add: py_eq_PStr)
  qed
  have 4: "distinct urls"
    using order_distinct [OF assms(1)] d o by (simp add: py_distinct_def)
  have 5: "\<forall>x \<in> set urls. \<forall>y \<in> set urls. py_eq x y \<longrightarrow> x = y"
    using d s by (simp add: py_distinct_def)
  have 6: "\<forall>kvs. map_of kvs (u ''url'') = None \<and> map_of kvs (u ''homepageUrl'') = None \<longrightarrow>
            record_urls (PDict kvs) = []"
    by (simp add: record_urls_def field_values_def)
  have 7: "\<forall>kvs key. map_of kvs key = Some (PStr []) \<longrightarrow> field_values key (PDict kvs) = []"
    by (simp add: field_values_def)
  show ?thesis using 1 2 4 5 6 7 by (simp only: 3 simp_thms)
qed

lemma duplicates_findall:
  "findall duplicates_doc =
     [(u ''institutes'',
       u ''[{'' @ dq ''url'' @ u '':'' @ dq ''https://a.example'' @ u '',''
       @ dq ''homepageUrl'' @ u '':'' @ dq ''https://h.example'' @ u ''},{'' @ dq ''name'' @ u '':''
       @ dq ''B'' @ u '','' @ dq ''url'' @ u '':'' @ dq '''' @ u ''},{'' @ dq ''name'' @ u '':'' @ dq ''C''
       @ u ''}]''),
      (u ''jobBoards'',
       u ''[{'' @ dq ''url'' @ u '':'' @ dq ''https://h.example'' @ u ''},{''
       @ dq ''homepageUrl'' @ u '':'' @ dq ''https://a.example'' @ u ''}]'')]"
  apply (simp add: duplicates_doc_def dq_def u_def chars)
  apply (simp add: u_consts regex_eval chars)
  done

lemma duplicates_spec_urls:
  "spec_urls (findall duplicates_doc) =
     [PStr (u ''https://a.example''), PStr (u ''https://h.example''),
      PStr (u ''https://h.example''), PStr (u ''https://a.example'')]"
  apply (simp add: duplicates_findall spec_urls_def)
  apply (simp add: dq_def u_def chars)
  apply (simp add: block_urls_def record_urls_def field_values_def u_consts chars json_eval is_space_def)
  done

lemma duplicates_extract:
  "extract_urls_from_js id (FileText duplicates_doc) =
     ([ParsingFile, FoundArrays 2, FoundUrls 2],
      Returns [PStr (u ''https://a.example''), PStr (u ''https://h.example'')])"
  apply (simp add: extract_urls_from_js_def duplicates_findall)
  apply (simp add: dq_def u_def u_consts chars json_eval extract_eval is_space_def)
  done

theorem url_set_is_field_values_witness:
  "snd (extract_urls_from_js id (FileText duplicates_doc)) =
     Returns [PStr (u ''https://a.example''), PStr (u ''https://h.example'')] \<and>
   spec_urls (findall duplicates_doc) =
     [PStr (u ''https://a.example''), PStr (u ''https://h.example''),
      PStr (u ''https://h.example''), PStr (u ''https://a.example'')] \<and>
   set [PStr (u ''https://a.example''), PStr (u ''https://h.example'')]
     \<subseteq> set (spec_urls (findall duplicates_doc)) \<and>
   distinct [PStr (u ''https://a.example''), PStr (u ''https://h.example'')]"
proof -
  have o: "\<And>xs :: pyval list. set (id xs) = set xs \<and> length (id xs) = length xs" by simp
  have r: "snd (extract_urls_from_js id (FileText duplicates_doc)) =
     Returns [PStr (u ''https://a.example''), PStr (u ''https://h.example'')]"
    by (simp add: duplicates_extract)
  from url_set_is_field_values [of id, OF o r] r duplicates_spec_urls
  show ?thesis by simp
qed

section \<open>Failures during extraction\<close>

lemma numbers_findall:
  "findall numbers_doc =
     [(u ''institutes'', u ''[{'' @ dq ''url'' @ u '':'' @ dq ''https://a.example'' @ u ''}]''),
      (u ''jobBoards'', u ''[1, 2]'')]"
  apply (simp add: numbers_doc_def dq_def u_def chars)
  apply (simp add: u_consts regex_eval chars)
  done

lemma numbers_first_block:
  "json_loads (normalise (u ''[{'' @ dq ''url'' @ u '':'' @ dq ''https://a.example'' @ u ''}]'')) =
     Some (PList [PDict [(u ''url'', PStr (u ''https://a.example''))]])"
  apply (simp add: dq_def u_def chars)
  apply (simp add: u_consts chars json_eval is_space_def)
  done

lemma numbers_second_block:
  "json_loads (normalise (u ''[1, 2]'')) = Some (PList [PInt 1, PInt 2])"
  apply (simp add: u_def)
  apply (simp add: u_consts chars json_eval is_space_def)
  done

lemma numbers_raise: "add_item (PInt n) urls = Inl TypeError"
  by (simp add: add_item_def check_field_def)

lemma first_block_adds:
  "add_item (PDict [(u ''url'', PStr (u ''https://a.example''))]) [] =
     Inr [PStr (u ''https://a.example'')]"
  by (simp add: extract_eval u_consts) (simp add: u_def)

text \<open>
  C9.  Only decoding failures are recovered.  There is a document whose second block
  decodes to an array of numbers: the first record of that block makes the test
  \<^verbatim>\<open>'url' in item\<close> raise \<^verbatim>\<open>TypeError\<close>, no handler takes it, and extraction (and
  with it the run) ends with that exception.  The URL of the first block, already in
  the set, is not returned.
\<close>

theorem non_object_records_raise:
  "findall numbers_doc =
     [(u ''institutes'', u ''[{'' @ dq ''url'' @ u '':'' @ dq ''https://a.example'' @ u ''}]''),
      (u ''jobBoards'', u ''[1, 2]'')] \<and>
   json_loads (normalise (u ''[1, 2]'')) = Some (PList [PInt 1, PInt 2]) \<and>
   add_items [PInt 1, PInt 2] [PStr (u ''https://a.example'')] = Inl TypeError \<and>
   extract_urls_from_js order (FileText numbers_doc) =
     ([ParsingFile, FoundArrays 2], Uncaught TypeError) \<and>
   main order (FileText numbers_doc) session = ([ParsingFile, FoundArrays 2], Uncaught TypeError)"
proof -
  have e: "extract_urls_from_js order (FileText numbers_doc) =
     ([ParsingFile, FoundArrays 2], Uncaught TypeError)"
    by (simp add: extract_urls_from_js_def numbers_findall numbers_first_block
        numbers_second_block first_block_adds numbers_raise)
  then have "main order (FileText numbers_doc) session =
     ([ParsingFile, FoundArrays 2], Uncaught TypeError)"
    by (simp add: main_def)
  with e show ?thesis
    by (simp add: numbers_findall numbers_second_block numbers_raise)
qed

lemma list_url_findall:
  "findall list_url_doc =
     [(u ''jobBoards'', u ''[{'' @ dq ''url'' @ u '':['' @ dq ''https://a.example'' @ u '']}]'')]"
  apply (simp add: list_url_doc_def dq_def u_def chars)
  apply (simp add: u_consts regex_eval chars)
  done

lemma list_url_block:
  "json_loads (normalise (u ''[{'' @ dq ''url'' @ u '':['' @ dq ''https://a.example'' @ u '']}]'')) =
     Some (PList [PDict [(u ''url'', PList [PStr (u ''https://a.example'')])]])"
  apply (simp add: dq_def u_def chars)
  apply (simp add: u_consts chars json_eval is_space_def)
  done

lemma list_url_raises:
  "add_item (PDict [(u ''url'', PList [PStr (u ''https://a.example'')])]) [] = Inl TypeError"
  by (simp add: extract_eval u_consts)

lemma list_url_extract:
  "extract_urls_from_js id (FileText list_url_doc) =
     ([ParsingFile, FoundArrays 1], Uncaught TypeError)"
  by (simp add: extract_urls_from_js_def list_url_findall list_url_block list_url_raises)

text \<open>
  C5 as it is stated fails: a document in which an array block is found, and yet the
  process ends in extraction with the failure code and without checking a URL.  The
  value of \<^verbatim>\<open>url\<close> is a list, which \<^verbatim>\<open>urls.add\<close> cannot hash.
\<close>

theorem fatal_without_arrays_only_counterexample:
  "findall list_url_doc \<noteq> [] \<and>
   snd (extract_urls_from_js id (FileText list_url_doc)) = Uncaught TypeError \<and>
   exit_code (snd (main id (FileText list_url_doc) (\<lambda>url. Response 200))) = 1 \<and>
   report (fst (main id (FileText list_url_doc) (\<lambda>url. Response 200))) = []"
  by (simp add: main_def list_url_extract list_url_findall)

lemma process_arrays_append:
  "process_arrays xs urls = (out, Inr urls1) \<Longrightarrow>
   process_arrays (xs @ ys) urls =
     (out @ fst (process_arrays ys urls1), snd (process_arrays ys urls1))"
proof (induction xs urls arbitrary: out rule: process_arrays.induct)
  case (1 urls)
  then show ?case by simp
next
  case (2 array_name array_content found urls)
  show ?case
  proof (cases "json_loads (normalise array_content)")
    case None
    with "2.prems" obtain out' where p: "process_arrays found urls = (out', Inr urls1)"
      and o: "out = WarningNotParsed array_name # ErrorDetails # out'"
      by (auto split: prod.splits)
    from "2.IH"(1) [OF None p] None o show ?thesis by simp
  next
    case (Some data)
    with "2.prems" obtain items mid where i: "py_iter data = Inr items"
      and a: "add_items items urls = Inr mid" and p: "process_arrays found mid = (out, Inr urls1)"
      by (auto split: sum.splits)
    from "2.IH"(2) [OF Some i a p] Some i a show ?thesis by simp
  qed
qed

text \<open>
  C5, amended.  Extraction leaves through \<^verbatim>\<open>sys.exit(1)\<close>, with the diagnostic that
  no array was found, exactly when no array block is found in the document, and it
  never leaves through \<^verbatim>\<open>sys.exit\<close> otherwise.  When the loop over the blocks reaches a
  block that \<^verbatim>\<open>json.loads\<close> cannot decode, it prints the warning that names the
  block, adds nothing to the set, and goes on with the remaining blocks.
\<close>

theorem decode_failure_not_fatal:
  "(snd (extract_urls_from_js order (FileText html)) = SysExit 1 \<longleftrightarrow> findall html = []) \<and>
   (\<forall>n. snd (extract_urls_from_js order (FileText html)) = SysExit n \<longrightarrow>
      n = 1 \<and> fst (extract_urls_from_js order (FileText html)) = [ParsingFile, ErrorNoArrays]) \<and>
   (json_loads (normalise array_content) = None \<and> process_arrays before urls = (out, Inr urls1) \<longrightarrow>
      process_arrays (before @ (array_name, array_content) # rest) urls =
        (out @ WarningNotParsed array_name # ErrorDetails # fst (process_arrays rest urls1),
         snd (process_arrays rest urls1)))"
proof -
  have 1: "snd (extract_urls_from_js order (FileText html)) = SysExit 1 \<longleftrightarrow> findall html = []"
    by (auto simp: extract_urls_from_js_def Let_def split: prod.splits sum.splits)
  have 2: "n = 1 \<and> fst (extract_urls_from_js order (FileText html)) = [ParsingFile, ErrorNoArrays]"
    if "snd (extract_urls_from_js order (FileText html)) = SysExit n" for n
    using that
    by (auto simp: extract_urls_from_js_def Let_def split: prod.splits sum.splits if_splits)
  have 3: "process_arrays (before @ (array_name, array_content) # rest) urls =
        (out @ WarningNotParsed array_name # ErrorDetails # fst (process_arrays rest urls1),
         snd (process_arrays rest urls1))"
    if a: "json_loads (normalise array_content) = None \<and> process_arrays before urls = (out, Inr urls1)"
  proof -
    from a have "process_arrays ((array_name, array_content) # rest) urls1 =
       (WarningNotParsed array_name # ErrorDetails # fst (process_arrays rest urls1),
        snd (process_arrays rest urls1))"
      by (simp add: case_prod_beta)
    with process_arrays_append [of before urls out urls1 "(array_name, array_content) # rest"] a
    show ?thesis by simp
  qed
  show ?thesis
  proof (intro conjI)
    show "snd (extract_urls_from_js order (FileText html)) = SysExit 1 \<longleftrightarrow> findall html = []"
      by (rule 1)
    show "\<forall>n. snd (extract_urls_from_js order (FileText html)) = SysExit n \<longrightarrow>
      n = 1 \<and> fst (extract_urls_from_js order (FileText html)) = [ParsingFile, ErrorNoArrays]"
      using 2 by blast
    show "json_loads (normalise array_content) = None \<and> process_arrays before urls = (out, Inr urls1) \<longrightarrow>
      process_arrays (before @ (array_name, array_content) # rest) urls =
        (out @ WarningNotParsed array_name # ErrorDetails # fst (process_arrays rest urls1),
         snd (process_arrays rest urls1))"
      using 3 by blast
  qed
qed

lemma broken_block_findall:
  "findall broken_block_doc =
     [(u ''institutes'', u ''[{]''),
      (u ''jobBoards'', u ''[{'' @ dq ''url'' @ u '':'' @ dq ''https://a.example'' @ u ''}]'')]"
  apply (simp add: broken_block_doc_def dq_def u_def chars)
  apply (simp add: u_consts regex_eval chars)
  done

lemma broken_block_fails: "json_loads (normalise (u ''[{]'')) = None"
  apply (simp add: u_def)
  apply (simp add: u_consts chars json_eval is_space_def)
  done

theorem decode_failure_not_fatal_witness:
  "findall broken_block_doc =
     [(u ''institutes'', u ''[{]''),
      (u ''jobBoards'', u ''[{'' @ dq ''url'' @ u '':'' @ dq ''https://a.example'' @ u ''}]'')] \<and>
   json_loads (normalise (u ''[{]'')) = None \<and>
   process_arrays (findall broken_block_doc) [] =
     ([WarningNotParsed (u ''institutes''), ErrorDetails], Inr [PStr (u ''https://a.example'')]) \<and>
   extract_urls_from_js id (FileText broken_block_doc) =
     ([ParsingFile, FoundArrays 2, WarningNotParsed (u ''institutes''), ErrorDetails, FoundUrls 1],
      Returns [PStr (u ''https://a.example'')]) \<and>
   findall (u ''<html></html>'') = [] \<and>
   extract_urls_from_js id (FileText (u ''<html></html>'')) = ([ParsingFile, ErrorNoArrays], SysExit 1)"
proof -
  let ?good = "(u ''jobBoards'', u ''[{'' @ dq ''url'' @ u '':'' @ dq ''https://a.example'' @ u ''}]'')"
  have rest: "process_arrays [?good] [] = ([], Inr [PStr (u ''https://a.example'')])"
    by (simp add: numbers_first_block first_block_adds)
  have nil: "process_arrays [] [] = ([], Inr [])" by simp
  note inst = decode_failure_not_fatal [of id "u ''<html></html>''" "u ''[{]''" "[]" "[]" "[]" "[]"
      "u ''institutes''" "[?good]"]
  from inst [THEN conjunct2, THEN conjunct2, rule_format, OF conjI, OF broken_block_fails nil]
  have "process_arrays ([] @ [(u ''institutes'', u ''[{]''), ?good]) [] =
     ([] @ WarningNotParsed (u ''institutes'') # ErrorDetails # fst (process_arrays [?good] []),
      snd (process_arrays [?good] []))" .
  then have p: "process_arrays (findall broken_block_doc) [] =
     ([WarningNotParsed (u ''institutes''), ErrorDetails], Inr [PStr (u ''https://a.example'')])"
    by (simp only: rest broken_block_findall append_Nil fst_conv snd_conv)
  have e: "extract_urls_from_js id (FileText broken_block_doc) =
     ([ParsingFile, FoundArrays 2, WarningNotParsed (u ''institutes''), ErrorDetails, FoundUrls 1],
      Returns [PStr (u ''https://a.example'')])"
    using p by (simp add: extract_urls_from_js_def broken_block_findall)
  have n: "extract_urls_from_js id (FileText (u ''<html></html>'')) = ([ParsingFile, ErrorNoArrays], SysExit 1)"
    by (simp add: extract_urls_from_js_def no_arrays_here)
  show ?thesis using p e n by (simp add: broken_block_findall broken_block_fails no_arrays_here)
qed

section \<open>Quotes\<close>
































section \<open>Trailing commas\<close>


















































end
